theory Spec2Isabelle
  imports Main
begin

section \<open>Line buffer (executor.py, class LineBuffer)\<close>

text \<open>
  Timestamps are the values returned by \<^verbatim>\<open>time.time()\<close>. The model keeps their type
  abstract (\<open>'t\<close>). \<^verbatim>\<open>append(content)\<close> may read the clock once for every character it
  iterates over, so the model receives the content as a list of characters, each paired
  with the value the clock has while that character is processed.
\<close>

record 't segment =
  timestamp :: "'t option"
  content :: string

record 't LineBuffer =
  is_stderr :: bool
  completed_lines :: "('t \<times> string) list"
  current_line_timestamp :: "'t option"
  current_line_content :: string

definition LineBuffer_init :: "bool \<Rightarrow> 't LineBuffer" where
  "LineBuffer_init e =
     \<lparr>is_stderr = e, completed_lines = [], current_line_timestamp = None,
      current_line_content = []\<rparr>"

text \<open>The body of the \<^verbatim>\<open>for char in content\<close> loop of \<^verbatim>\<open>LineBuffer.append\<close>.\<close>

definition append_char :: "'t \<Rightarrow> char \<Rightarrow> 't LineBuffer \<Rightarrow> 't LineBuffer" where
  "append_char now c b =
     (let b1 = (if current_line_timestamp b = None
                then b\<lparr>current_line_timestamp := Some now\<rparr> else b);
          b2 = b1\<lparr>current_line_content := current_line_content b1 @ [c]\<rparr>
      in if c = CHR 0x0A
         then b2\<lparr>completed_lines :=
                    completed_lines b2 @
                      [(the (current_line_timestamp b2), current_line_content b2)],
                  current_line_timestamp := None,
                  current_line_content := []\<rparr>
         else b2)"

fun LineBuffer_append :: "('t \<times> char) list \<Rightarrow> 't LineBuffer \<Rightarrow> 't LineBuffer" where
  "LineBuffer_append [] b = b"
| "LineBuffer_append ((now, c) # cs) b = LineBuffer_append cs (append_char now c b)"

text \<open>\<^verbatim>\<open>LineBuffer.flush\<close>: the returned segments and the buffer after the call.\<close>

definition LineBuffer_flush :: "'t LineBuffer \<Rightarrow> 't segment list \<times> 't LineBuffer" where
  "LineBuffer_flush b =
     (let segments = map (\<lambda>(ts, c). \<lparr>timestamp = Some ts, content = c\<rparr>) (completed_lines b);
          b1 = b\<lparr>completed_lines := []\<rparr>
      in if current_line_content b1 \<noteq> []
         then (segments @ [\<lparr>timestamp = current_line_timestamp b1,
                             content = current_line_content b1\<rparr>],
               b1\<lparr>current_line_timestamp := None, current_line_content := []\<rparr>)
         else (segments, b1))"

text \<open>
  A history of calls on one buffer. \<open>lb_run\<close> performs them in order and collects what
  every \<^verbatim>\<open>flush()\<close> returned, one list of segments per call.
\<close>

datatype 't lb_op = Append "('t \<times> char) list" | Flush

fun lb_run :: "'t lb_op list \<Rightarrow> 't LineBuffer \<Rightarrow> 't segment list list \<times> 't LineBuffer" where
  "lb_run [] b = ([], b)"
| "lb_run (Append tc # ops) b = lb_run ops (LineBuffer_append tc b)"
| "lb_run (Flush # ops) b =
     (let (segs, b1) = LineBuffer_flush b;
          (rest, b2) = lb_run ops b1
      in (segs # rest, b2))"

fun appended :: "'t lb_op \<Rightarrow> string" where
  "appended (Append tc) = map snd tc"
| "appended Flush = []"

text \<open>Everything the buffer holds that has not been flushed yet.\<close>

definition pending :: "'t LineBuffer \<Rightarrow> string" where
  "pending b = concat (map snd (completed_lines b)) @ current_line_content b"

text \<open>The open line carries a timestamp whenever it has content.\<close>

definition stamped :: "'t LineBuffer \<Rightarrow> bool" where
  "stamped b = (current_line_content b = [] \<or> current_line_timestamp b \<noteq> None)"

section \<open>Calls observed at the control-plane client and at the operating system\<close>

text \<open>
  The client (\<^verbatim>\<open>client.py\<close>) and the child process are outside the modelled code. Every
  call the modelled code makes to them is recorded, in order, as an event; what they answer
  is an input of the model. Durations are in seconds (the source's \<^verbatim>\<open>5.0\<close> and \<^verbatim>\<open>1.0\<close>
  are whole numbers).
\<close>

datatype 't event =
    StartExecution string
  | SendOutput string "'t segment list" bool int
  | CompleteExecution string int string
  | Popen_call "string list"
  | Wait_call int
  | Terminate_call
  | Kill_call

section \<open>Output stream manager (executor.py, class OutputStreamManager)\<close>

record 't OutputStreamManager =
  execution_id :: string
  stdout_buffer :: "'t LineBuffer"
  stderr_buffer :: "'t LineBuffer"
  chunk_number :: int
  running :: bool

definition OutputStreamManager_init :: "string \<Rightarrow> 't OutputStreamManager" where
  "OutputStreamManager_init eid =
     \<lparr>execution_id = eid, stdout_buffer = LineBuffer_init False,
      stderr_buffer = LineBuffer_init True, chunk_number = 0, running = True\<rparr>"

definition OutputStreamManager_append ::
  "('t \<times> char) list \<Rightarrow> bool \<Rightarrow> 't OutputStreamManager \<Rightarrow> 't OutputStreamManager" where
  "OutputStreamManager_append tc err m =
     (if err then m\<lparr>stderr_buffer := LineBuffer_append tc (stderr_buffer m)\<rparr>
      else m\<lparr>stdout_buffer := LineBuffer_append tc (stdout_buffer m)\<rparr>)"

text \<open>
  One round of the loop \<^verbatim>\<open>for buffer in [self.stdout_buffer, self.stderr_buffer]\<close> of
  \<^verbatim>\<open>_flush\<close>, for the buffer selected by \<open>err\<close>. An exception of \<^verbatim>\<open>send_output\<close> is
  caught and logged there and changes nothing, so the model records the call only.
\<close>

definition flush_buffer ::
  "bool \<Rightarrow> 't OutputStreamManager \<Rightarrow> 't event list \<times> 't OutputStreamManager" where
  "flush_buffer err m =
     (let (segments, b) = LineBuffer_flush (if err then stderr_buffer m else stdout_buffer m);
          m1 = (if err then m\<lparr>stderr_buffer := b\<rparr> else m\<lparr>stdout_buffer := b\<rparr>)
      in if segments \<noteq> []
         then (let m2 = m1\<lparr>chunk_number := chunk_number m1 + 1\<rparr>;
                   chunk_num = chunk_number m2
               in ([SendOutput (execution_id m2) segments (is_stderr b) chunk_num], m2))
         else ([], m1))"

definition OutputStreamManager_flush ::
  "'t OutputStreamManager \<Rightarrow> 't event list \<times> 't OutputStreamManager" where
  "OutputStreamManager_flush m =
     (let (ev1, m1) = flush_buffer False m;
          (ev2, m2) = flush_buffer True m1
      in (ev1 @ ev2, m2))"

definition OutputStreamManager_finalize ::
  "'t OutputStreamManager \<Rightarrow> 't event list \<times> 't OutputStreamManager" where
  "OutputStreamManager_finalize m = OutputStreamManager_flush (m\<lparr>running := False\<rparr>)"

text \<open>
  What happens to a manager during one execution when every call of \<^verbatim>\<open>_flush\<close> runs
  from start to end with nothing in between: the two reader threads append, the flush
  loop flushes. A schedule is one serialisation of these whole calls.
\<close>

datatype 't osm_op = Feed "('t \<times> char) list" bool | Tick

fun osm_run ::
  "'t osm_op list \<Rightarrow> 't OutputStreamManager \<Rightarrow> 't event list \<times> 't OutputStreamManager" where
  "osm_run [] m = ([], m)"
| "osm_run (Feed tc err # ops) m = osm_run ops (OutputStreamManager_append tc err m)"
| "osm_run (Tick # ops) m =
     (let (ev, m1) = OutputStreamManager_flush m;
          (rest, m2) = osm_run ops m1
      in (ev @ rest, m2))"

fun sequence_numbers :: "'t event list \<Rightarrow> int list" where
  "sequence_numbers [] = []"
| "sequence_numbers (SendOutput eid segs err n # evs) = n # sequence_numbers evs"
| "sequence_numbers (ev # evs) = sequence_numbers evs"

text \<open>
  \<^verbatim>\<open>_flush\<close> is called from two threads: the flush thread (\<^verbatim>\<open>_flush_loop\<close>) and the thread
  that calls \<^verbatim>\<open>finalize\<close>. \<^verbatim>\<open>finalize\<close> joins the flush thread for at most two seconds
  (\<^verbatim>\<open>join(timeout=2.0)\<close>) and flushes whether or not the join succeeded, so the two calls
  can overlap. Inside \<^verbatim>\<open>_flush\<close>, \<^verbatim>\<open>buffer.flush()\<close> runs under the buffer's lock, the
  increment and read of \<^verbatim>\<open>chunk_number\<close> under \<^verbatim>\<open>self._lock\<close>, and \<^verbatim>\<open>send_output\<close> is
  called outside of any lock. These are the atomic actions of a thread inside \<^verbatim>\<open>_flush\<close>;
  \<open>pc\<close> tells which one comes next: \<^verbatim>\<open>buffer.flush()\<close> for the stdout (\<open>False\<close>) or
  stderr (\<open>True\<close>) buffer, the locked increment for the segments just drained, or the
  call of \<^verbatim>\<open>send_output\<close> with the number just read. \<open>Idle\<close>: not inside \<^verbatim>\<open>_flush\<close>.
\<close>

datatype thread = Flush_thread | Finalizing_thread

datatype 't pc =
    Idle
  | At_buffer bool
  | Has_segments bool "'t segment list"
  | Has_number bool "'t segment list" int

text \<open>
  The manager, where each of the two threads stands, and the calls of \<^verbatim>\<open>send_output\<close>
  made so far, in the order in which they were made.
\<close>

record 't flushing =
  manager :: "'t OutputStreamManager"
  pcs :: "thread \<Rightarrow> 't pc"
  sent :: "'t event list"

definition fresh_flushing :: "string \<Rightarrow> 't flushing" where
  "fresh_flushing eid =
     \<lparr>manager = OutputStreamManager_init eid, pcs = (\<lambda>t. Idle), sent = []\<rparr>"

text \<open>Where a thread continues after it is done with one buffer of the loop.\<close>

definition after_buffer :: "bool \<Rightarrow> 't pc" where
  "after_buffer err = (if err then Idle else At_buffer True)"

text \<open>The next atomic action of thread \<open>t\<close> inside \<^verbatim>\<open>_flush\<close>.\<close>

definition flusher_step :: "thread \<Rightarrow> 't flushing \<Rightarrow> 't flushing" where
  "flusher_step t q =
     (let m = manager q
      in case pcs q t of
           Idle \<Rightarrow> q
         | At_buffer err \<Rightarrow>
             (let (segments, b) =
                    LineBuffer_flush (if err then stderr_buffer m else stdout_buffer m);
                  m1 = (if err then m\<lparr>stderr_buffer := b\<rparr> else m\<lparr>stdout_buffer := b\<rparr>)
              in q\<lparr>manager := m1,
                   pcs := (pcs q)(t := if segments \<noteq> [] then Has_segments err segments
                                        else after_buffer err)\<rparr>)
         | Has_segments err segments \<Rightarrow>
             (let m2 = m\<lparr>chunk_number := chunk_number m + 1\<rparr>;
                  chunk_num = chunk_number m2
              in q\<lparr>manager := m2, pcs := (pcs q)(t := Has_number err segments chunk_num)\<rparr>)
         | Has_number err segments chunk_num \<Rightarrow>
             q\<lparr>sent := sent q @
                    [SendOutput (execution_id m) segments
                       (is_stderr (if err then stderr_buffer m else stdout_buffer m)) chunk_num],
               pcs := (pcs q)(t := after_buffer err)\<rparr>)"

text \<open>
  One action of a schedule: a reader thread appends; a thread that is not inside
  \<^verbatim>\<open>_flush\<close> calls it (the finalizing thread clears \<^verbatim>\<open>running\<close> first, as \<^verbatim>\<open>finalize\<close>
  does); a thread inside \<^verbatim>\<open>_flush\<close> performs its next atomic action.
\<close>

datatype 't osm_action = Reader "('t \<times> char) list" bool | Begin thread | Next thread

fun osm_act :: "'t osm_action \<Rightarrow> 't flushing \<Rightarrow> 't flushing" where
  "osm_act (Reader tc err) q = q\<lparr>manager := OutputStreamManager_append tc err (manager q)\<rparr>"
| "osm_act (Begin t) q =
     (if pcs q t = Idle
      then q\<lparr>manager := (if t = Finalizing_thread then (manager q)\<lparr>running := False\<rparr>
                           else manager q),
             pcs := (pcs q)(t := At_buffer False)\<rparr>
      else q)"
| "osm_act (Next t) q = flusher_step t q"

fun interleave :: "'t osm_action list \<Rightarrow> 't flushing \<Rightarrow> 't flushing" where
  "interleave [] q = q"
| "interleave (a # as) q = interleave as (osm_act a q)"

text \<open>
  A whole call of \<^verbatim>\<open>_flush\<close> by thread \<open>t\<close> with nothing in between: at most six
  atomic actions, three for each buffer.
\<close>

definition whole_flush :: "thread \<Rightarrow> 't osm_action list" where
  "whole_flush t = [Begin t, Next t, Next t, Next t, Next t, Next t, Next t]"

text \<open>
  The schedules in which no two calls of \<^verbatim>\<open>_flush\<close> overlap and no reader appends during
  one: the flush thread's calls, then the one of \<^verbatim>\<open>finalize\<close>.
\<close>

fun serial :: "'t osm_op list \<Rightarrow> 't osm_action list" where
  "serial [] = whole_flush Finalizing_thread"
| "serial (Feed tc err # ops) = Reader tc err # serial ops"
| "serial (Tick # ops) = whole_flush Flush_thread @ serial ops"

text \<open>
  What every state of an interleaving satisfies: the numbers passed to \<^verbatim>\<open>send_output\<close>
  so far are distinct and lie between 1 and the counter, and a number a thread has read
  under the lock and not yet passed is within the same range, has not been passed, and is
  held by that thread alone.
\<close>

definition numbering_ok :: "'t flushing \<Rightarrow> bool" where
  "numbering_ok q =
     (0 \<le> chunk_number (manager q) \<and>
      distinct (sequence_numbers (sent q)) \<and>
      set (sequence_numbers (sent q)) \<subseteq> {1 .. chunk_number (manager q)} \<and>
      (\<forall>t err segs k. pcs q t = Has_number err segs k \<longrightarrow>
         1 \<le> k \<and> k \<le> chunk_number (manager q) \<and> k \<notin> set (sequence_numbers (sent q))) \<and>
      (\<forall>t t' err segs err' segs' k.
         pcs q t = Has_number err segs k \<and> pcs q t' = Has_number err' segs' k \<longrightarrow> t = t'))"

section \<open>Command executor (executor.py, class CommandExecutor)\<close>

datatype exn = ValueError | TimeoutExpired

record ExecutionResult =
  exit_code :: int
  status :: string

text \<open>
  The handle returned by \<^verbatim>\<open>subprocess.Popen\<close>: \<open>returncode\<close> is what a successful
  \<^verbatim>\<open>wait\<close> stored in it, \<open>alive\<close> tells whether the child process still runs.
\<close>

record Popen =
  args :: "string list"
  returncode :: "int option"
  alive :: bool

record CommandExecutor =
  project_path :: string
  process :: "Popen option"
  cancelled :: bool

definition CommandExecutor_init :: "string \<Rightarrow> CommandExecutor" where
  "CommandExecutor_init path = \<lparr>project_path = path, process = None, cancelled = False\<rparr>"

definition GRACE_PERIOD :: int where
  "GRACE_PERIOD = 5"

text \<open>
  Library functions and values the executor uses: \<^verbatim>\<open>sys.executable\<close>, \<^verbatim>\<open>os.path.join\<close>
  and \<^verbatim>\<open>shlex.split\<close>, which raises \<^verbatim>\<open>ValueError\<close> on some strings (\<open>None\<close>).
\<close>

record platform =
  sys_executable :: string
  os_path_join :: "string \<Rightarrow> string \<Rightarrow> string"
  shlex_split :: "string \<Rightarrow> string list option"

text \<open>
  The command line of \<^verbatim>\<open>execute\<close>. It is built before the \<^verbatim>\<open>try\<close> block, so an
  exception of \<^verbatim>\<open>shlex.split\<close> propagates out of \<^verbatim>\<open>execute\<close>: neither the
  \<^verbatim>\<open>except Exception\<close> handler nor the \<^verbatim>\<open>finally\<close> block runs.
\<close>

definition build_cmd :: "platform \<Rightarrow> string \<Rightarrow> string \<Rightarrow> string \<Rightarrow> exn + string list" where
  "build_cmd pf path command arg_string =
     (let manage_py = os_path_join pf path ''manage.py'';
          cmd = [sys_executable pf, ''-u'', manage_py, command]
      in if arg_string \<noteq> []
         then (case shlex_split pf arg_string of
                 None \<Rightarrow> Inl ValueError
               | Some toks \<Rightarrow> Inr (cmd @ toks))
         else Inr cmd)"

text \<open>
  How the child answers one run of \<^verbatim>\<open>_kill_process\<close>: whether \<^verbatim>\<open>terminate()\<close> or
  \<^verbatim>\<open>kill()\<close> raise \<^verbatim>\<open>ProcessLookupError\<close>, and what the two bounded waits return
  (\<open>None\<close>: \<^verbatim>\<open>subprocess.TimeoutExpired\<close>).
\<close>

record proc_oracle =
  terminate_fails :: bool
  wait_grace :: "int option"
  kill_fails :: bool
  wait_kill :: "int option"

definition exited :: "int \<Rightarrow> Popen \<Rightarrow> Popen" where
  "exited rc p = p\<lparr>returncode := Some rc, alive := False\<rparr>"

definition gone :: "Popen \<Rightarrow> Popen" where
  "gone p = p\<lparr>alive := False\<rparr>"

text \<open>
  \<^verbatim>\<open>_kill_process\<close>: the exception it raises, if any, the calls it makes and the executor
  afterwards. Only \<^verbatim>\<open>ProcessLookupError\<close> is caught; the \<^verbatim>\<open>TimeoutExpired\<close> of the wait
  that follows \<^verbatim>\<open>kill()\<close> is not.
\<close>

definition CommandExecutor_kill_process ::
  "proc_oracle \<Rightarrow> bool \<Rightarrow> CommandExecutor \<Rightarrow> exn option \<times> 't event list \<times> CommandExecutor" where
  "CommandExecutor_kill_process po sigkill s =
     (case process s of
        None \<Rightarrow> (None, [], s)
      | Some p \<Rightarrow>
          if sigkill
          then (if kill_fails po
                then (None, [Kill_call], s\<lparr>process := Some (gone p)\<rparr>)
                else (None, [Kill_call], s))
          else if terminate_fails po
          then (None, [Terminate_call], s\<lparr>process := Some (gone p)\<rparr>)
          else (case wait_grace po of
                  Some rc \<Rightarrow>
                    (None, [Terminate_call, Wait_call GRACE_PERIOD],
                     s\<lparr>process := Some (exited rc p)\<rparr>)
                | None \<Rightarrow>
                    if kill_fails po
                    then (None, [Terminate_call, Wait_call GRACE_PERIOD, Kill_call],
                          s\<lparr>process := Some (gone p)\<rparr>)
                    else (case wait_kill po of
                            Some rc \<Rightarrow>
                              (None,
                               [Terminate_call, Wait_call GRACE_PERIOD, Kill_call, Wait_call 1],
                               s\<lparr>process := Some (exited rc p)\<rparr>)
                          | None \<Rightarrow>
                              (Some TimeoutExpired,
                               [Terminate_call, Wait_call GRACE_PERIOD, Kill_call, Wait_call 1],
                               s))))"

text \<open>
  The one answer of the child that makes the escalation of \<^verbatim>\<open>_kill_process\<close> raise: it
  survives \<^verbatim>\<open>terminate()\<close> for the grace period and is not reaped within one second of
  \<^verbatim>\<open>kill()\<close>.
\<close>

definition escalation_stalls :: "proc_oracle \<Rightarrow> bool" where
  "escalation_stalls po =
     (\<not> terminate_fails po \<and> wait_grace po = None \<and> \<not> kill_fails po \<and> wait_kill po = None)"

definition CommandExecutor_cancel ::
  "proc_oracle \<Rightarrow> bool \<Rightarrow> CommandExecutor \<Rightarrow> exn option \<times> 't event list \<times> CommandExecutor" where
  "CommandExecutor_cancel po force s =
     (let s1 = s\<lparr>cancelled := True\<rparr>
      in if process s1 = None then (None, [], s1)
         else if force then CommandExecutor_kill_process po True s1
         else CommandExecutor_kill_process po False s1)"

text \<open>
  The surroundings of one call of \<^verbatim>\<open>execute\<close>: whether \<^verbatim>\<open>Popen\<close> raises, what the readers
  and the flush loop do to the stream manager, what \<^verbatim>\<open>wait(timeout=timeout)\<close> returns
  (\<open>None\<close>: \<^verbatim>\<open>TimeoutExpired\<close>), how the child answers the escalation of the timeout
  path, and the one call of \<^verbatim>\<open>cancel(force)\<close> the cancellation watcher may make from its
  own thread, with the point of \<^verbatim>\<open>execute\<close> at which it takes effect.
\<close>

datatype cancel_point = Before_spawn | While_running | After_check

record 't exec_env =
  popen_fails :: bool
  schedule :: "'t osm_op list"
  wait_main :: "int option"
  killer :: proc_oracle
  watcher :: "(cancel_point \<times> bool) option"
  watcher_oracle :: proc_oracle

record 't exec_out =
  result :: "exn + ExecutionResult"
  calls :: "'t event list"
  executor :: CommandExecutor
  child :: "Popen option"

text \<open>An exception in the watcher's thread stays there; its calls and the flag remain.\<close>

definition watcher_cancel ::
  "cancel_point \<Rightarrow> 't exec_env \<Rightarrow> CommandExecutor \<Rightarrow> 't event list \<times> CommandExecutor" where
  "watcher_cancel pt env s =
     (case watcher env of
        None \<Rightarrow> ([], s)
      | Some (at, force) \<Rightarrow>
          if at = pt
          then (let (e, evs, s1) = CommandExecutor_cancel (watcher_oracle env) force s
                in (evs, s1))
          else ([], s))"

text \<open>
  The \<^verbatim>\<open>except subprocess.TimeoutExpired\<close> branch of \<^verbatim>\<open>execute\<close>. When \<^verbatim>\<open>_kill_process\<close>
  raises, the \<^verbatim>\<open>finalize\<close> and \<^verbatim>\<open>return\<close> of the branch are skipped and the enclosing
  \<^verbatim>\<open>except Exception\<close> takes over.
\<close>

definition timeout_path ::
  "'t exec_env \<Rightarrow> 't OutputStreamManager \<Rightarrow> CommandExecutor \<Rightarrow>
   ExecutionResult \<times> 't event list \<times> CommandExecutor" where
  "timeout_path env m s =
     (let (e, evk, s1) = CommandExecutor_kill_process (killer env) False s;
          (evf, m1) = OutputStreamManager_finalize m
      in case e of
           None \<Rightarrow> (\<lparr>exit_code = - 1, status = ''timed_out''\<rparr>, evk @ evf, s1)
         | Some x \<Rightarrow> (\<lparr>exit_code = - 1, status = ''failed''\<rparr>, evk @ evf, s1))"

text \<open>The path of \<^verbatim>\<open>execute\<close> after \<^verbatim>\<open>wait\<close> has returned the exit code.\<close>

definition exit_path ::
  "'t exec_env \<Rightarrow> int \<Rightarrow> 't OutputStreamManager \<Rightarrow> CommandExecutor \<Rightarrow>
   ExecutionResult \<times> 't event list \<times> CommandExecutor" where
  "exit_path env rc m s =
     (let s1 = s\<lparr>process := map_option (exited rc) (process s)\<rparr>;
          (evf, m1) = OutputStreamManager_finalize m;
          r = (if cancelled s1 then \<lparr>exit_code = rc, status = ''cancelled''\<rparr>
               else \<lparr>exit_code = rc, status = (if rc = 0 then ''success'' else ''failed'')\<rparr>);
          (evw, s2) = watcher_cancel After_check env s1
      in (r, evf @ evw, s2))"

definition CommandExecutor_execute ::
  "platform \<Rightarrow> 't exec_env \<Rightarrow> string \<Rightarrow> string \<Rightarrow> string \<Rightarrow> int \<Rightarrow> CommandExecutor \<Rightarrow>
   't exec_out" where
  "CommandExecutor_execute pf env eid command arg_string timeout s =
     (let s0 = s\<lparr>cancelled := False\<rparr>;
          stream_manager = OutputStreamManager_init eid
      in case build_cmd pf (project_path s0) command arg_string of
           Inl e \<Rightarrow> \<lparr>result = Inl e, calls = [], executor = s0, child = None\<rparr>
         | Inr cmd \<Rightarrow>
             (let (ev0, s1) = watcher_cancel Before_spawn env s0
              in if popen_fails env
                 then (let (evf, m) = OutputStreamManager_finalize stream_manager
                       in \<lparr>result = Inr \<lparr>exit_code = - 1, status = ''failed''\<rparr>,
                           calls = ev0 @ [Popen_call cmd] @ evf,
                           executor = s1\<lparr>process := None\<rparr>, child = None\<rparr>)
                 else (let s2 = s1\<lparr>process :=
                                  Some \<lparr>args = cmd, returncode = None, alive = True\<rparr>\<rparr>;
                           (evs, m) = osm_run (schedule env) stream_manager;
                           (evw, s3) = watcher_cancel While_running env s2;
                           (r, evr, s4) =
                             (case wait_main env of
                                None \<Rightarrow> timeout_path env m s3
                              | Some rc \<Rightarrow> exit_path env rc m s3)
                       in \<lparr>result = Inr r,
                           calls = ev0 @ [Popen_call cmd] @ evs @ evw @ [Wait_call timeout] @ evr,
                           executor = s4\<lparr>process := None\<rparr>, child = process s4\<rparr>)))"

section \<open>Security policy (security.py, constants.py)\<close>

definition DEFAULT_DISALLOWED_COMMANDS :: "string list" where
  "DEFAULT_DISALLOWED_COMMANDS =
     [''flush'', ''sqlflush'', ''reset_db'',
      ''shell'', ''shell_plus'', ''dbshell'',
      ''runserver'', ''runserver_plus'', ''testserver'',
      ''createsuperuser'', ''changepassword'',
      ''makemigrations'', ''squashmigrations'',
      ''drop_test_database'', ''delete_squashed_migrations'', ''clean_pyc'']"

text \<open>The two Django settings the policy reads; \<open>None\<close> when a setting is absent.\<close>

record settings =
  DJANGOCOMMAND_ALLOWED_COMMANDS :: "string list option"
  DJANGOCOMMAND_DISALLOWED_COMMANDS :: "string list option"

definition is_command_allowed :: "settings \<Rightarrow> string \<Rightarrow> bool \<times> string" where
  "is_command_allowed st command =
     (let allowed_commands = DJANGOCOMMAND_ALLOWED_COMMANDS st
      in if allowed_commands \<noteq> None \<and> the allowed_commands \<noteq> []
         then (if command \<in> set (the allowed_commands) then (True, [])
               else (False, ''not in DJANGOCOMMAND_ALLOWED_COMMANDS allowlist''))
         else (let disallowed_commands =
                     (case DJANGOCOMMAND_DISALLOWED_COMMANDS st of
                        None \<Rightarrow> DEFAULT_DISALLOWED_COMMANDS
                      | Some l \<Rightarrow> l)
               in if command \<in> set disallowed_commands
                  then (False, ''in DJANGOCOMMAND_DISALLOWED_COMMANDS blocklist'')
                  else (True, [])))"

section \<open>Agent (agent.py, class Agent)\<close>

definition MAX_CONCURRENT_EXECUTIONS :: nat where
  "MAX_CONCURRENT_EXECUTIONS = 4"

text \<open>
  \<^verbatim>\<open>_active_executions\<close> is a Python dict, modelled as an association list in insertion
  order: \<open>dict_set\<close> is \<^verbatim>\<open>d[k] = v\<close>, \<open>dict_pop\<close> is \<^verbatim>\<open>d.pop(k, None)\<close>, \<open>dict_keys\<close>
  lists the keys.
\<close>

fun dict_set :: "('k \<times> 'v) list \<Rightarrow> 'k \<Rightarrow> 'v \<Rightarrow> ('k \<times> 'v) list" where
  "dict_set [] k v = [(k, v)]"
| "dict_set ((k', v') # d) k v = (if k' = k then (k, v) # d else (k', v') # dict_set d k v)"

definition dict_pop :: "'k \<Rightarrow> ('k \<times> 'v) list \<Rightarrow> ('k \<times> 'v) list" where
  "dict_pop k d = filter (\<lambda>kv. fst kv \<noteq> k) d"

definition dict_keys :: "('k \<times> 'v) list \<Rightarrow> 'k list" where
  "dict_keys d = map fst d"

record Agent =
  active_executions :: "(string \<times> CommandExecutor) list"
  agent_project_path :: string

text \<open>
  Whether a call of the client returns (\<open>True\<close>) or raises \<^verbatim>\<open>DjangoCommandClientError\<close>,
  for the three calls of the worker.
\<close>

record client_env =
  start_ok :: bool
  send_ok :: bool
  complete_ok :: bool

definition error_message :: "string \<Rightarrow> string \<Rightarrow> string" where
  "error_message command reason =
     ''Command '' @ [CHR 0x27] @ command @ [CHR 0x27] @
       '' rejected by agent security policy.'' @ [CHR 0x0A] @
     ''Reason: '' @ reason @ [CHR 0x0A] @
     [CHR 0x0A] @
     ''To allow this command, update your Django settings:'' @ [CHR 0x0A] @
     ''  DJANGOCOMMAND_ALLOWED_COMMANDS = ('' @ [CHR 0x27] @ command @ [CHR 0x27] @
       '', ...)'' @ [CHR 0x0A] @
     ''or remove it from DJANGOCOMMAND_DISALLOWED_COMMANDS.'' @ [CHR 0x0A]"

text \<open>
  \<^verbatim>\<open>_reject_execution\<close>: the calls it makes. A failure of \<^verbatim>\<open>start_execution\<close> ends it; a
  failure of \<^verbatim>\<open>send_output\<close> or \<^verbatim>\<open>complete_execution\<close> is logged and nothing else.
  \<open>now\<close> is the value of \<^verbatim>\<open>time.time()\<close> in the segment.
\<close>

definition Agent_reject_execution ::
  "client_env \<Rightarrow> 't \<Rightarrow> string \<Rightarrow> string \<Rightarrow> string \<Rightarrow> 't event list" where
  "Agent_reject_execution c now eid command reason =
     (if \<not> start_ok c then [StartExecution eid]
      else [StartExecution eid] @
           [SendOutput eid [\<lparr>timestamp = Some now, content = error_message command reason\<rparr>]
              True 1] @
           [CompleteExecution eid (- 1) ''failed''])"

record 't worker_env =
  client :: client_env
  exec :: "'t exec_env"
  clock :: 't

text \<open>
  What one run of the worker \<^verbatim>\<open>_run_execution\<close> leaves: the exception that leaves it, if
  any, its calls, the successive values it gave to the active set, and the agent.
\<close>

record 't worker_out =
  raised :: "exn option"
  wcalls :: "'t event list"
  writes :: "(string \<times> CommandExecutor) list list"
  agent :: Agent

definition Agent_run_execution ::
  "platform \<Rightarrow> settings \<Rightarrow> 't worker_env \<Rightarrow> string \<Rightarrow> string \<Rightarrow> string \<Rightarrow> int \<Rightarrow> Agent \<Rightarrow>
   't worker_out" where
  "Agent_run_execution pf st env eid command arg_string timeout a =
     (let (allowed, reason) = is_command_allowed st command
      in if \<not> allowed
         then \<lparr>raised = None,
               wcalls = Agent_reject_execution (client env) (clock env) eid command reason,
               writes = [], agent = a\<rparr>
         else (let executor = CommandExecutor_init (agent_project_path a);
                   a1 = a\<lparr>active_executions := dict_set (active_executions a) eid executor\<rparr>;
                   a2 = a1\<lparr>active_executions := dict_pop eid (active_executions a1)\<rparr>;
                   ws = [active_executions a1, active_executions a2]
               in if \<not> start_ok (client env)
                  then \<lparr>raised = None, wcalls = [StartExecution eid], writes = ws, agent = a2\<rparr>
                  else (let out = CommandExecutor_execute pf (exec env) eid command arg_string
                                    timeout executor
                        in case result out of
                             Inl e \<Rightarrow>
                               \<lparr>raised = Some e, wcalls = StartExecution eid # calls out,
                                writes = ws, agent = a2\<rparr>
                           | Inr r \<Rightarrow>
                               \<lparr>raised = None,
                                wcalls = StartExecution eid # calls out @
                                  [CompleteExecution eid (exit_code r) (status r)],
                                writes = ws, agent = a2\<rparr>)))"

text \<open>
  \<^verbatim>\<open>self._executor_pool.submit(self._run_execution, ...)\<close>: the pool runs the worker in one
  of its threads and keeps whatever the worker raises in the future it returns, which
  \<^verbatim>\<open>poll_and_execute\<close> drops. \<open>propagated\<close> is the exception that reaches the caller of
  \<^verbatim>\<open>submit\<close>, the agent loop.
\<close>

record 't submitted =
  propagated :: "exn option"
  future :: "'t worker_out"

definition pool_submit :: "'t worker_out \<Rightarrow> 't submitted" where
  "pool_submit w = \<lparr>propagated = None, future = w\<rparr>"

fun completions :: "'t event list \<Rightarrow> (string \<times> int \<times> string) list" where
  "completions [] = []"
| "completions (CompleteExecution eid rc st # evs) = (eid, rc, st) # completions evs"
| "completions (ev # evs) = completions evs"

fun starts :: "'t event list \<Rightarrow> string list" where
  "starts [] = []"
| "starts (StartExecution eid # evs) = eid # starts evs"
| "starts (ev # evs) = starts evs"

fun outputs :: "'t event list \<Rightarrow> (string \<times> 't segment list \<times> bool \<times> int) list" where
  "outputs [] = []"
| "outputs (SendOutput eid segs err n # evs) = (eid, segs, err, n) # outputs evs"
| "outputs (ev # evs) = outputs evs"

fun spawns :: "'t event list \<Rightarrow> string list list" where
  "spawns [] = []"
| "spawns (Popen_call cmd # evs) = cmd # spawns evs"
| "spawns (ev # evs) = spawns evs"

text \<open>The calls that report the life cycle of an execution to the control plane.\<close>

fun lifecycle :: "'t event \<Rightarrow> bool" where
  "lifecycle (StartExecution eid) = True"
| "lifecycle (CompleteExecution eid rc st) = True"
| "lifecycle ev = False"

definition silent :: "'t event list \<Rightarrow> bool" where
  "silent evs = list_all (\<lambda>ev. \<not> lifecycle ev) evs"

definition terminal_statuses :: "string list" where
  "terminal_statuses = [''success'', ''failed'', ''cancelled'', ''timed_out'']"

section \<open>Polling and the worker pool (agent.py, poll_and_execute and run)\<close>

text \<open>One item of the list returned by \<^verbatim>\<open>get_pending_executions\<close>.\<close>

record execution =
  ex_id :: string
  ex_command :: string
  ex_args :: string
  ex_timeout :: int

text \<open>
  The part of the loop body of \<^verbatim>\<open>poll_and_execute\<close> that runs under
  \<^verbatim>\<open>_executions_lock\<close>: \<^verbatim>\<open>continue\<close>, \<^verbatim>\<open>break\<close>, or fall through to \<^verbatim>\<open>submit\<close>.
\<close>

datatype decision = Skip | Stop | Submit

definition admit :: "(string \<times> CommandExecutor) list \<Rightarrow> string \<Rightarrow> decision" where
  "admit act eid =
     (if eid \<in> set (dict_keys act) then Skip
      else if length act \<ge> MAX_CONCURRENT_EXECUTIONS then Stop
      else Submit)"

text \<open>
  The executions one call of \<^verbatim>\<open>poll_and_execute\<close> submits to the pool, for the list the
  client returned and an active set that no worker changes meanwhile. \<^verbatim>\<open>submit\<close> itself
  does not touch the active set.
\<close>

fun poll_loop :: "(string \<times> CommandExecutor) list \<Rightarrow> execution list \<Rightarrow> execution list" where
  "poll_loop act [] = []"
| "poll_loop act (e # es) =
     (case admit act (ex_id e) of
        Skip \<Rightarrow> poll_loop act es
      | Stop \<Rightarrow> []
      | Submit \<Rightarrow> e # poll_loop act es)"

text \<open>\<open>None\<close>: \<^verbatim>\<open>get_pending_executions\<close> raised \<^verbatim>\<open>DjangoCommandClientError\<close>.\<close>

definition Agent_poll_and_execute :: "execution list option \<Rightarrow> Agent \<Rightarrow> execution list" where
  "Agent_poll_and_execute polled a =
     (case polled of None \<Rightarrow> [] | Some es \<Rightarrow> poll_loop (active_executions a) es)"

text \<open>
  The agent loop and the pool threads run concurrently. The runtime below is the state
  they share: the active set, the work items the pool has queued, and the work items a
  pool thread is running, each before (\<open>Checking\<close>) or after (\<open>Tracked\<close>) the worker has
  inserted its id. A step is one action that is atomic with respect to the active set,
  and carries the name of that action:
  the locked test of the poll loop followed by \<^verbatim>\<open>submit\<close>; a free pool thread taking the
  next item (the pool is created with \<^verbatim>\<open>max_workers=MAX_CONCURRENT_EXECUTIONS\<close>); a
  worker finishing a rejected execution; a worker inserting its id; a worker's
  \<^verbatim>\<open>finally\<close> block removing it.
\<close>

datatype phase = Checking | Tracked

record runtime =
  active_set :: "(string \<times> CommandExecutor) list"
  work_queue :: "execution list"
  running_workers :: "(phase \<times> execution) list"

definition idle_runtime :: runtime where
  "idle_runtime = \<lparr>active_set = [], work_queue = [], running_workers = []\<rparr>"

datatype action = Dispatch execution | Pickup | Reject | Track | Finish

inductive step :: "settings \<Rightarrow> runtime \<Rightarrow> action \<Rightarrow> runtime \<Rightarrow> bool" for st :: settings where
  dispatch:
    "admit (active_set r) (ex_id e) = Submit \<Longrightarrow>
     step st r (Dispatch e) (r\<lparr>work_queue := work_queue r @ [e]\<rparr>)"
| pickup:
    "work_queue r = e # q \<Longrightarrow>
     length (running_workers r) < MAX_CONCURRENT_EXECUTIONS \<Longrightarrow>
     step st r Pickup
       (r\<lparr>work_queue := q, running_workers := running_workers r @ [(Checking, e)]\<rparr>)"
| reject:
    "running_workers r = ws @ (Checking, e) # ws' \<Longrightarrow>
     \<not> fst (is_command_allowed st (ex_command e)) \<Longrightarrow>
     step st r Reject (r\<lparr>running_workers := ws @ ws'\<rparr>)"
| track:
    "running_workers r = ws @ (Checking, e) # ws' \<Longrightarrow>
     fst (is_command_allowed st (ex_command e)) \<Longrightarrow>
     step st r Track
       (r\<lparr>active_set := dict_set (active_set r) (ex_id e) x,
          running_workers := ws @ (Tracked, e) # ws'\<rparr>)"
| finish:
    "running_workers r = ws @ (Tracked, e) # ws' \<Longrightarrow>
     step st r Finish
       (r\<lparr>active_set := dict_pop (ex_id e) (active_set r),
          running_workers := ws @ ws'\<rparr>)"

inductive_cases dispatch_cases: "step st r (Dispatch e) r'"

inductive reachable :: "settings \<Rightarrow> runtime \<Rightarrow> bool" for st :: settings where
  start: "reachable st idle_runtime"
| next_step: "reachable st r \<Longrightarrow> step st r act r' \<Longrightarrow> reachable st r'"

definition tracked_ids :: "(phase \<times> execution) list \<Rightarrow> string list" where
  "tracked_ids ws = map (\<lambda>w. ex_id (snd w)) (filter (\<lambda>w. fst w = Tracked) ws)"

definition pool_invariant :: "runtime \<Rightarrow> bool" where
  "pool_invariant r =
     (length (running_workers r) \<le> MAX_CONCURRENT_EXECUTIONS \<and>
      distinct (dict_keys (active_set r)) \<and>
      set (dict_keys (active_set r)) \<subseteq> set (tracked_ids (running_workers r)))"

section \<open>Example inputs\<close>

text \<open>
  The answers of \<^verbatim>\<open>shlex.split\<close> on the two argument strings the examples use: the
  single word \<^verbatim>\<open>--plan\<close>, and a lone double quote, on which it raises \<^verbatim>\<open>ValueError\<close>
  (no closing quotation). The sample answers every other string like the second.
\<close>

definition sample_split :: "string \<Rightarrow> string list option" where
  "sample_split x = (if x = ''--plan'' then Some [''--plan''] else None)"

definition unix_platform :: platform where
  "unix_platform =
     \<lparr>sys_executable = ''/usr/bin/python3'',
      os_path_join = (\<lambda>a b. a @ ''/'' @ b),
      shlex_split = sample_split\<rparr>"

definition prompt_child :: proc_oracle where
  "prompt_child =
     \<lparr>terminate_fails = False, wait_grace = Some (- 15), kill_fails = False,
      wait_kill = Some (- 9)\<rparr>"

definition stalled_child :: proc_oracle where
  "stalled_child =
     \<lparr>terminate_fails = False, wait_grace = None, kill_fails = False, wait_kill = None\<rparr>"

definition quiet_env :: "nat exec_env" where
  "quiet_env =
     \<lparr>popen_fails = False, schedule = [], wait_main = Some 0, killer = prompt_child,
      watcher = None, watcher_oracle = prompt_child\<rparr>"

definition default_settings :: settings where
  "default_settings =
     \<lparr>DJANGOCOMMAND_ALLOWED_COMMANDS = None, DJANGOCOMMAND_DISALLOWED_COMMANDS = None\<rparr>"

definition reachable_client :: client_env where
  "reachable_client = \<lparr>start_ok = True, send_ok = True, complete_ok = True\<rparr>"

definition unreachable_client :: client_env where
  "unreachable_client = \<lparr>start_ok = False, send_ok = False, complete_ok = False\<rparr>"

definition quiet_worker :: "nat worker_env" where
  "quiet_worker = \<lparr>client = reachable_client, exec = quiet_env, clock = 7\<rparr>"

definition idle_agent :: Agent where
  "idle_agent = \<lparr>active_executions = [], agent_project_path = ''/app''\<rparr>"

definition first_execution :: execution where
  "first_execution =
     \<lparr>ex_id = ''e1'', ex_command = ''migrate'', ex_args = [], ex_timeout = 300\<rparr>"

definition second_execution :: execution where
  "second_execution =
     \<lparr>ex_id = ''e2'', ex_command = ''check'', ex_args = [], ex_timeout = 300\<rparr>"

definition busy_runtime :: runtime where
  "busy_runtime =
     \<lparr>active_set = [(''e1'', CommandExecutor_init ''/app'')], work_queue = [],
      running_workers = [(Tracked, first_execution)]\<rparr>"

definition racy_schedule :: "nat osm_action list" where
  "racy_schedule =
     [Reader [(0, CHR ''a''), (1, CHR 0x0A)] False,
      Begin Flush_thread, Next Flush_thread, Next Flush_thread, Next Flush_thread,
      Reader [(2, CHR ''b''), (3, CHR 0x0A)] False,
      Reader [(4, CHR ''x''), (5, CHR 0x0A)] True,
      Begin Finalizing_thread, Next Finalizing_thread,
      Next Flush_thread, Next Flush_thread,
      Next Finalizing_thread, Next Finalizing_thread,
      Next Flush_thread]"

section \<open>Line buffer: proofs\<close>

lemma pending_init: "pending (LineBuffer_init e) = []"
  by (simp add: pending_def LineBuffer_init_def)

lemma pending_append_char: "pending (append_char now c b) = pending b @ [c]"
  by (simp add: pending_def append_char_def Let_def)

lemma pending_append: "pending (LineBuffer_append tc b) = pending b @ map snd tc"
  by (induction tc arbitrary: b) (auto simp: pending_append_char)

lemma content_completed:
  "(content \<circ> (\<lambda>(ts, c). \<lparr>timestamp = Some ts, content = c\<rparr>)) = snd"
  by (rule ext) (simp add: case_prod_beta)

lemma flush_content:
  "concat (map content (fst (LineBuffer_flush b))) = pending b"
  by (simp add: LineBuffer_flush_def Let_def pending_def content_completed)

lemma flush_pending: "pending (snd (LineBuffer_flush b)) = []"
  by (simp add: LineBuffer_flush_def Let_def pending_def)

lemma lb_run_content:
  "concat (map content (concat (fst (lb_run ops b)))) @ pending (snd (lb_run ops b)) =
   pending b @ concat (map appended ops)"
proof (induction ops arbitrary: b)
  case Nil
  show ?case by simp
next
  case (Cons x ops)
  show ?case
  proof (cases x)
    case (Append tc)
    with Cons [of "LineBuffer_append tc b"] show ?thesis
      by (simp add: pending_append)
  next
    case Flush
    obtain segs b1 where f: "LineBuffer_flush b = (segs, b1)"
      by (cases "LineBuffer_flush b")
    obtain rest b2 where r: "lb_run ops b1 = (rest, b2)"
      by (cases "lb_run ops b1")
    from f have "concat (map content segs) = pending b" and "pending b1 = []"
      using flush_content [of b] flush_pending [of b] by simp_all
    with Cons [of b1] Flush f r show ?thesis by simp
  qed
qed

text \<open>
  C2. Whatever the interleaving of \<^verbatim>\<open>append\<close> and \<^verbatim>\<open>flush\<close> calls on a fresh buffer, the
  contents of the segments returned by all the flushes, followed by those of one final
  flush, concatenate to exactly the characters that were appended, in order.
\<close>

theorem LineBuffer_round_trip:
  "concat (map content
     (concat (fst (lb_run ops (LineBuffer_init e))) @
      fst (LineBuffer_flush (snd (lb_run ops (LineBuffer_init e)))))) =
   concat (map appended ops)"
  using lb_run_content [of ops "LineBuffer_init e"]
  by (simp add: flush_content pending_init)

theorem LineBuffer_round_trip_witness:
  "concat (map content
     (concat (fst (lb_run [Append [(0::nat, CHR ''a''), (1, CHR 0x0A), (2, CHR ''b'')], Flush,
                           Append [(3, CHR ''c'')]] (LineBuffer_init False))) @
      fst (LineBuffer_flush (snd (lb_run [Append [(0::nat, CHR ''a''), (1, CHR 0x0A),
                           (2, CHR ''b'')], Flush, Append [(3, CHR ''c'')]]
                           (LineBuffer_init False)))))) =
   [CHR ''a'', CHR 0x0A, CHR ''b'', CHR ''c'']"
  using LineBuffer_round_trip [of "[Append [(0::nat, CHR ''a''), (1, CHR 0x0A), (2, CHR ''b'')],
     Flush, Append [(3, CHR ''c'')]]" False]
  by simp

lemma stamped_init: "stamped (LineBuffer_init e)"
  by (simp add: stamped_def LineBuffer_init_def)

lemma stamped_append_char: "stamped (append_char now c b)"
  by (simp add: stamped_def append_char_def Let_def)

lemma stamped_append: "stamped b \<Longrightarrow> stamped (LineBuffer_append tc b)"
  by (induction tc arbitrary: b) (auto simp: stamped_append_char)

lemma stamped_flush: "stamped (snd (LineBuffer_flush b))"
  by (simp add: stamped_def LineBuffer_flush_def Let_def)

lemma flush_timestamps:
  "stamped b \<Longrightarrow> s \<in> set (fst (LineBuffer_flush b)) \<Longrightarrow> timestamp s \<noteq> None"
  by (auto simp: stamped_def LineBuffer_flush_def Let_def split: if_splits)

text \<open>
  No call history on a fresh buffer ever makes \<^verbatim>\<open>flush\<close> return a segment without a
  timestamp: \<^verbatim>\<open>append\<close> stamps the open line again as soon as it finds the timestamp
  cleared, which is the state \<^verbatim>\<open>flush\<close> leaves after reporting a partial line.
\<close>

lemma lb_run_timestamps:
  "stamped b \<Longrightarrow> segs \<in> set (fst (lb_run ops b)) \<Longrightarrow> s \<in> set segs \<Longrightarrow> timestamp s \<noteq> None"
proof (induction ops arbitrary: b)
  case Nil
  then show ?case by simp
next
  case (Cons x ops)
  show ?case
  proof (cases x)
    case (Append tc)
    with Cons.prems Cons.IH [of "LineBuffer_append tc b"] show ?thesis
      by (simp add: stamped_append)
  next
    case Flush
    obtain f b1 where f: "LineBuffer_flush b = (f, b1)"
      by (cases "LineBuffer_flush b")
    obtain rest b2 where r: "lb_run ops b1 = (rest, b2)"
      by (cases "lb_run ops b1")
    from f have b1: "stamped b1" using stamped_flush [of b] by simp
    from Cons.prems(2) Flush f r have "segs = f \<or> segs \<in> set rest" by simp
    then show ?thesis
    proof
      assume "segs = f"
      with Cons.prems f show ?thesis using flush_timestamps [of b s] by simp
    next
      assume "segs \<in> set rest"
      with Cons.IH [of b1] b1 r Cons.prems(3) show ?thesis by simp
    qed
  qed
qed

text \<open>
  C1. The claim fails on the code. After \<^verbatim>\<open>append("ab")\<close> and a flush that reports the
  partial line \<^verbatim>\<open>"ab"\<close> with its timestamp, \<^verbatim>\<open>append("cd")\<close> continues the same open
  line; the next flush reports \<^verbatim>\<open>"cd"\<close> with the clock value read at \<^verbatim>\<open>'c'\<close>, not with a
  null timestamp. (Clock values 0, 1, 2, 3 at the four characters.)
\<close>

theorem LineBuffer_continuation_restamped:
  "fst (lb_run [Append [(0::nat, CHR ''a''), (1, CHR ''b'')], Flush,
                Append [(2, CHR ''c''), (3, CHR ''d'')], Flush] (LineBuffer_init False)) =
   [[\<lparr>timestamp = Some 0, content = ''ab''\<rparr>], [\<lparr>timestamp = Some 2, content = ''cd''\<rparr>]]"
  by (simp add: LineBuffer_init_def LineBuffer_flush_def append_char_def Let_def)

section \<open>Output stream manager: proofs\<close>

lemma flush_buffer_numbers:
  "sequence_numbers (fst (flush_buffer err m)) =
     [chunk_number m + 1 .. chunk_number (snd (flush_buffer err m))] \<and>
   chunk_number m \<le> chunk_number (snd (flush_buffer err m))"
  by (simp add: flush_buffer_def Let_def split: prod.splits)

lemma sequence_numbers_append:
  "sequence_numbers (xs @ ys) = sequence_numbers xs @ sequence_numbers ys"
  by (induction xs rule: sequence_numbers.induct) auto

lemma upto_join: "i \<le> j \<Longrightarrow> j \<le> k \<Longrightarrow> [i + 1 .. j] @ [j + 1 .. k] = [i + 1 .. (k::int)]"
proof (cases "i = j")
  case True
  then show ?thesis by simp
next
  case False
  assume "i \<le> j" "j \<le> k"
  with False have "i + 1 \<le> j" by simp
  from upto_split2 [OF this \<open>j \<le> k\<close>] show ?thesis by simp
qed

lemma flush_numbers:
  "sequence_numbers (fst (OutputStreamManager_flush m)) =
     [chunk_number m + 1 .. chunk_number (snd (OutputStreamManager_flush m))] \<and>
   chunk_number m \<le> chunk_number (snd (OutputStreamManager_flush m))"
proof -
  obtain ev1 m1 where a: "flush_buffer False m = (ev1, m1)" by (cases "flush_buffer False m")
  obtain ev2 m2 where b: "flush_buffer True m1 = (ev2, m2)" by (cases "flush_buffer True m1")
  from a flush_buffer_numbers [of False m]
  have 1: "sequence_numbers ev1 = [chunk_number m + 1 .. chunk_number m1]" "chunk_number m \<le> chunk_number m1"
    by simp_all
  from b flush_buffer_numbers [of True m1]
  have 2: "sequence_numbers ev2 = [chunk_number m1 + 1 .. chunk_number m2]" "chunk_number m1 \<le> chunk_number m2"
    by simp_all
  from 1 2 a b show ?thesis
    by (simp add: OutputStreamManager_flush_def sequence_numbers_append upto_join)
qed

lemma append_chunk_number:
  "chunk_number (OutputStreamManager_append tc err m) = chunk_number m"
  by (simp add: OutputStreamManager_append_def)

lemma osm_run_numbers:
  "sequence_numbers (fst (osm_run ops m)) = [chunk_number m + 1 .. chunk_number (snd (osm_run ops m))] \<and>
   chunk_number m \<le> chunk_number (snd (osm_run ops m))"
proof (induction ops arbitrary: m)
  case Nil
  show ?case by simp
next
  case (Cons x ops)
  show ?case
  proof (cases x)
    case (Feed tc err)
    with Cons [of "OutputStreamManager_append tc err m"] show ?thesis
      by (simp add: append_chunk_number)
  next
    case Tick
    obtain ev m1 where a: "OutputStreamManager_flush m = (ev, m1)"
      by (cases "OutputStreamManager_flush m")
    obtain rest m2 where b: "osm_run ops m1 = (rest, m2)" by (cases "osm_run ops m1")
    from a flush_numbers [of m]
    have 1: "sequence_numbers ev = [chunk_number m + 1 .. chunk_number m1]" "chunk_number m \<le> chunk_number m1"
      by simp_all
    from b Cons [of m1]
    have 2: "sequence_numbers rest = [chunk_number m1 + 1 .. chunk_number m2]" "chunk_number m1 \<le> chunk_number m2"
      by simp_all
    from 1 2 a b Tick show ?thesis
      by (simp add: sequence_numbers_append upto_join)
  qed
qed

lemma numbering_ok_fresh: "numbering_ok (fresh_flushing eid)"
  by (simp add: numbering_ok_def fresh_flushing_def OutputStreamManager_init_def)

lemma numbering_ok_step: "numbering_ok q \<Longrightarrow> numbering_ok (flusher_step t q)"
proof (cases "pcs q t")
  case Idle
  assume "numbering_ok q"
  with Idle show ?thesis by (simp add: flusher_step_def)
next
  case (At_buffer err)
  assume "numbering_ok q"
  with At_buffer show ?thesis
    by (auto simp: flusher_step_def numbering_ok_def Let_def case_prod_beta after_buffer_def)
next
  case (Has_segments err segs)
  assume "numbering_ok q"
  with Has_segments show ?thesis
    by (fastforce simp: flusher_step_def numbering_ok_def Let_def)
next
  case (Has_number err segs k)
  assume "numbering_ok q"
  with Has_number show ?thesis
    by (auto simp: flusher_step_def numbering_ok_def Let_def sequence_numbers_append
        after_buffer_def)
qed

lemma numbering_ok_act: "numbering_ok q \<Longrightarrow> numbering_ok (osm_act a q)"
proof (cases a)
  case (Reader tc err)
  assume "numbering_ok q"
  with Reader show ?thesis by (simp add: numbering_ok_def append_chunk_number)
next
  case (Begin t)
  assume "numbering_ok q"
  with Begin show ?thesis by (auto simp: numbering_ok_def)
next
  case (Next t)
  assume "numbering_ok q"
  with Next show ?thesis by (simp add: numbering_ok_step)
qed

lemma numbering_ok_interleave: "numbering_ok q \<Longrightarrow> numbering_ok (interleave as q)"
  by (induction as arbitrary: q) (simp_all add: numbering_ok_act)


lemma flush_is_stderr: "is_stderr (snd (LineBuffer_flush b)) = is_stderr b"
  by (simp add: LineBuffer_flush_def Let_def)

lemma interleave_append: "interleave (as @ bs) q = interleave bs (interleave as q)"
  by (induction as arbitrary: q) simp_all

lemma idle_steps: "pcs q t = Idle \<Longrightarrow> interleave (replicate n (Next t)) q = q"
  by (induction n) (simp_all add: flusher_step_def)

text \<open>
  One round of the loop of \<^verbatim>\<open>_flush\<close> run without interruption is \<open>flush_buffer\<close>: three
  atomic actions when the buffer had segments, one when it had none.
\<close>

lemma buffer_round:
  assumes "pcs q t = At_buffer err"
  shows "\<exists>n. (n = 1 \<or> n = 3) \<and> interleave (replicate n (Next t)) q =
     q\<lparr>manager := snd (flush_buffer err (manager q)),
       pcs := (pcs q)(t := after_buffer err),
       sent := sent q @ fst (flush_buffer err (manager q))\<rparr>"
proof -
  obtain segs b where f:
    "LineBuffer_flush (if err then stderr_buffer (manager q) else stdout_buffer (manager q)) =
       (segs, b)"
    by (cases "LineBuffer_flush (if err then stderr_buffer (manager q)
                                 else stdout_buffer (manager q))")
  from f have sb: "is_stderr b =
      is_stderr (if err then stderr_buffer (manager q) else stdout_buffer (manager q))"
    using flush_is_stderr [of "if err then stderr_buffer (manager q)
                               else stdout_buffer (manager q)"] by simp
  show ?thesis
  proof (cases "segs = []")
    case True
    with assms f have "interleave (replicate 1 (Next t)) q =
       q\<lparr>manager := snd (flush_buffer err (manager q)),
         pcs := (pcs q)(t := after_buffer err),
         sent := sent q @ fst (flush_buffer err (manager q))\<rparr>"
      by (cases err) (simp_all add: flusher_step_def flush_buffer_def Let_def)
    then show ?thesis by blast
  next
    case False
    have three: "replicate 3 (Next t) = [Next t, Next t, Next t]"
      by (simp add: numeral_3_eq_3)
    from False assms f sb have "interleave (replicate 3 (Next t)) q =
       q\<lparr>manager := snd (flush_buffer err (manager q)),
         pcs := (pcs q)(t := after_buffer err),
         sent := sent q @ fst (flush_buffer err (manager q))\<rparr>"
      unfolding three
      by (cases err) (simp_all add: flusher_step_def flush_buffer_def Let_def)
    then show ?thesis by blast
  qed
qed

lemma whole_flush_alone:
  assumes "pcs q t = Idle"
  shows "interleave (whole_flush t) q =
     q\<lparr>manager := snd (OutputStreamManager_flush
                        (if t = Finalizing_thread then (manager q)\<lparr>running := False\<rparr>
                         else manager q)),
       sent := sent q @ fst (OutputStreamManager_flush
                        (if t = Finalizing_thread then (manager q)\<lparr>running := False\<rparr>
                         else manager q))\<rparr>"
proof -
  define mt where
    "mt = (if t = Finalizing_thread then (manager q)\<lparr>running := False\<rparr> else manager q)"
  define q0 where "q0 = q\<lparr>manager := mt, pcs := (pcs q)(t := At_buffer False)\<rparr>"
  define q1 where
    "q1 = q0\<lparr>manager := snd (flush_buffer False (manager q0)),
              pcs := (pcs q0)(t := after_buffer False),
              sent := sent q0 @ fst (flush_buffer False (manager q0))\<rparr>"
  define q2 where
    "q2 = q1\<lparr>manager := snd (flush_buffer True (manager q1)),
              pcs := (pcs q1)(t := after_buffer True),
              sent := sent q1 @ fst (flush_buffer True (manager q1))\<rparr>"
  have six: "whole_flush t = Begin t # replicate 6 (Next t)"
    by (simp add: whole_flush_def eval_nat_numeral)
  from assms have b: "osm_act (Begin t) q = q0" by (simp add: q0_def mt_def)
  have "pcs q0 t = At_buffer False" by (simp add: q0_def)
  from buffer_round [OF this] obtain n1 where
    n1: "n1 = 1 \<or> n1 = 3" "interleave (replicate n1 (Next t)) q0 = q1"
    unfolding q1_def by blast
  have "pcs q1 t = At_buffer True" by (simp add: q1_def after_buffer_def)
  from buffer_round [OF this] obtain n2 where
    n2: "n2 = 1 \<or> n2 = 3" "interleave (replicate n2 (Next t)) q1 = q2"
    unfolding q2_def by blast
  have idle: "pcs q2 t = Idle" by (simp add: q2_def after_buffer_def)
  from n1(1) n2(1) have "(6::nat) = n1 + (n2 + (6 - n1 - n2))" by auto
  then have e: "replicate 6 (Next t) =
      replicate n1 (Next t) @ replicate n2 (Next t) @ replicate (6 - n1 - n2) (Next t)"
    by (metis replicate_add)
  have "interleave (replicate n1 (Next t) @ replicate n2 (Next t) @
          replicate (6 - n1 - n2) (Next t)) q0 = q2"
    by (simp only: interleave_append n1(2) n2(2) idle_steps [OF idle])
  then have "interleave (replicate 6 (Next t)) q0 = q2"
    by (simp only: e)
  then have r: "interleave (whole_flush t) q = q2"
    by (simp only: six interleave.simps b)
  have "q2 = q\<lparr>manager := snd (OutputStreamManager_flush mt),
                sent := sent q @ fst (OutputStreamManager_flush mt)\<rparr>"
    using assms
    by (cases q)
       (simp add: q2_def q1_def q0_def after_buffer_def OutputStreamManager_flush_def
          case_prod_beta fun_upd_idem)
  with r show ?thesis by (simp add: mt_def)
qed

lemma serial_run:
  assumes "pcs q Flush_thread = Idle" and "pcs q Finalizing_thread = Idle"
  shows "interleave (serial ops) q =
     q\<lparr>manager := snd (OutputStreamManager_finalize (snd (osm_run ops (manager q)))),
       sent := sent q @ fst (osm_run ops (manager q)) @
               fst (OutputStreamManager_finalize (snd (osm_run ops (manager q))))\<rparr>"
  using assms
proof (induction ops arbitrary: q)
  case Nil
  then show ?case
    by (simp add: whole_flush_alone OutputStreamManager_finalize_def)
next
  case (Cons x ops)
  show ?case
  proof (cases x)
    case (Feed tc err)
    let ?q = "q\<lparr>manager := OutputStreamManager_append tc err (manager q)\<rparr>"
    from Cons.prems have "pcs ?q Flush_thread = Idle" "pcs ?q Finalizing_thread = Idle"
      by simp_all
    from Cons.IH [OF this] Feed show ?thesis by simp
  next
    case Tick
    let ?q = "q\<lparr>manager := snd (OutputStreamManager_flush (manager q)),
                   sent := sent q @ fst (OutputStreamManager_flush (manager q))\<rparr>"
    from Cons.prems have w: "interleave (whole_flush Flush_thread) q = ?q"
      by (simp add: whole_flush_alone)
    from Cons.prems have "pcs ?q Flush_thread = Idle" "pcs ?q Finalizing_thread = Idle"
      by simp_all
    from Cons.IH [OF this] Tick w show ?thesis
      by (simp add: interleave_append case_prod_beta)
  qed
qed

lemma serial_numbers:
  "\<exists>k\<ge>0. sequence_numbers (sent (interleave (serial ops) (fresh_flushing eid))) = [1 .. k]"
proof -
  define m0 :: "'a OutputStreamManager" where "m0 = OutputStreamManager_init eid"
  define m where "m = snd (osm_run ops m0)"
  define m' where "m' = snd (OutputStreamManager_finalize m)"
  have c0: "chunk_number m0 = 0" by (simp add: m0_def OutputStreamManager_init_def)
  from osm_run_numbers [of ops m0] c0
  have 1: "sequence_numbers (fst (osm_run ops m0)) = [0 + 1 .. chunk_number m]"
    "0 \<le> chunk_number m"
    by (simp_all add: m_def)
  from flush_numbers [of "m\<lparr>running := False\<rparr>"]
  have 2: "sequence_numbers (fst (OutputStreamManager_finalize m)) =
      [chunk_number m + 1 .. chunk_number m']" "chunk_number m \<le> chunk_number m'"
    by (simp_all add: OutputStreamManager_finalize_def m'_def)
  from 1 2 have "sequence_numbers (fst (osm_run ops m0) @
      fst (OutputStreamManager_finalize m)) = [0 + 1 .. chunk_number m']"
    unfolding sequence_numbers_append by (simp only: upto_join)
  moreover from 1 2 have "0 \<le> chunk_number m'" by simp
  moreover have "sent (interleave (serial ops) (fresh_flushing eid)) =
      fst (osm_run ops m0) @ fst (OutputStreamManager_finalize m)"
    by (simp add: serial_run fresh_flushing_def m0_def m_def)
  ultimately have "0 \<le> chunk_number m' \<and>
      sequence_numbers (sent (interleave (serial ops) (fresh_flushing eid))) =
        [1 .. chunk_number m']"
    by simp
  then show ?thesis by blast
qed

text \<open>
  C8, as the code has it. One counter serves both streams of an execution, and a number is
  read from it under the manager's lock. Whatever the interleaving of the two threads
  that flush and of the readers, no sequence number is passed to \<^verbatim>\<open>send_output\<close> twice,
  and every number passed lies between 1 and the counter. When no two calls of
  \<^verbatim>\<open>_flush\<close> overlap, the numbers passed to \<^verbatim>\<open>send_output\<close> are 1, 2, 3, ... in the
  order of the calls, stdout and stderr chunks together: they increase strictly.
\<close>

theorem chunk_numbers_never_reused:
  "distinct (sequence_numbers (sent (interleave as (fresh_flushing eid)))) \<and>
   set (sequence_numbers (sent (interleave as (fresh_flushing eid)))) \<subseteq>
     {1 .. chunk_number (manager (interleave as (fresh_flushing eid)))} \<and>
   sequence_numbers (sent (interleave (serial ops) (fresh_flushing eid))) =
     [1 .. int (length (sequence_numbers
                  (sent (interleave (serial ops) (fresh_flushing eid)))))] \<and>
   sorted_wrt (<) (sequence_numbers (sent (interleave (serial ops) (fresh_flushing eid))))"
proof -
  have "numbering_ok (interleave as (fresh_flushing eid))"
    by (simp add: numbering_ok_interleave numbering_ok_fresh)
  then have a: "distinct (sequence_numbers (sent (interleave as (fresh_flushing eid))))"
    "set (sequence_numbers (sent (interleave as (fresh_flushing eid)))) \<subseteq>
     {1 .. chunk_number (manager (interleave as (fresh_flushing eid)))}"
    by (simp_all add: numbering_ok_def)
  obtain k where k: "0 \<le> k"
    "sequence_numbers (sent (interleave (serial ops) (fresh_flushing eid))) = [1 .. k]"
    using serial_numbers by blast
  then have "sequence_numbers (sent (interleave (serial ops) (fresh_flushing eid))) =
     [1 .. int (length (sequence_numbers
                  (sent (interleave (serial ops) (fresh_flushing eid)))))]"
    by simp
  moreover from k
  have "sorted_wrt (<) (sequence_numbers (sent (interleave (serial ops) (fresh_flushing eid))))"
    by simp
  ultimately show ?thesis using a by blast
qed

theorem chunk_numbers_never_reused_witness:
  "distinct (sequence_numbers (sent (interleave racy_schedule (fresh_flushing ''e1'')))) \<and>
   sorted_wrt (<) (sequence_numbers (sent (interleave (serial
     [Feed [(0::nat, CHR ''a''), (1, CHR 0x0A)] False, Feed [(2, CHR ''x'')] True, Tick,
      Feed [(3, CHR ''y'')] True, Feed [(4, CHR ''b'')] False]) (fresh_flushing ''e1'')))) \<and>
   sequence_numbers (sent (interleave (serial
     [Feed [(0::nat, CHR ''a''), (1, CHR 0x0A)] False, Feed [(2, CHR ''x'')] True, Tick,
      Feed [(3, CHR ''y'')] True, Feed [(4, CHR ''b'')] False]) (fresh_flushing ''e1''))) =
     [1, 2, 3, 4]"
proof -
  note t = chunk_numbers_never_reused [of racy_schedule "''e1''"
     "[Feed [(0::nat, CHR ''a''), (1, CHR 0x0A)] False, Feed [(2, CHR ''x'')] True, Tick,
       Feed [(3, CHR ''y'')] True, Feed [(4, CHR ''b'')] False]"]
  from t have 1:
    "distinct (sequence_numbers (sent (interleave racy_schedule (fresh_flushing ''e1''))))"
    by (rule conjunct1)
  from t have 2: "sorted_wrt (<) (sequence_numbers (sent (interleave (serial
     [Feed [(0::nat, CHR ''a''), (1, CHR 0x0A)] False, Feed [(2, CHR ''x'')] True, Tick,
      Feed [(3, CHR ''y'')] True, Feed [(4, CHR ''b'')] False]) (fresh_flushing ''e1''))))"
    by blast
  have 3: "sequence_numbers (sent (interleave (serial
     [Feed [(0::nat, CHR ''a''), (1, CHR 0x0A)] False, Feed [(2, CHR ''x'')] True, Tick,
      Feed [(3, CHR ''y'')] True, Feed [(4, CHR ''b'')] False]) (fresh_flushing ''e1''))) =
     [1, 2, 3, 4]"
    by (simp add: whole_flush_def fresh_flushing_def flusher_step_def after_buffer_def
        OutputStreamManager_init_def OutputStreamManager_append_def LineBuffer_init_def
        LineBuffer_flush_def append_char_def Let_def)
  from 1 2 3 show ?thesis by blast
qed

text \<open>
  C8 as stated fails when two calls of \<^verbatim>\<open>_flush\<close> overlap. The flush thread sends chunk 1
  and is still inside \<^verbatim>\<open>_flush\<close> when \<^verbatim>\<open>finalize\<close> starts its own flush and drains
  stdout; the flush thread then drains stderr and reads number 2 under the lock, the
  finalizing thread reads number 3 and calls \<^verbatim>\<open>send_output\<close>, and only then does the
  flush thread call \<^verbatim>\<open>send_output\<close> with number 2.
\<close>

theorem overlapping_flushes_send_out_of_order:
  "sequence_numbers (sent (interleave racy_schedule (fresh_flushing ''e1''))) = [1, 3, 2] \<and>
   \<not> sorted_wrt (<) (sequence_numbers (sent (interleave racy_schedule (fresh_flushing ''e1''))))"
  by (simp add: racy_schedule_def fresh_flushing_def flusher_step_def after_buffer_def
      OutputStreamManager_init_def OutputStreamManager_append_def LineBuffer_init_def
      LineBuffer_flush_def append_char_def Let_def)

section \<open>Command executor: proofs\<close>

lemma watcher_cancel_flag:
  "cancelled (snd (watcher_cancel pt env s)) =
     (cancelled s \<or> (\<exists>force. watcher env = Some (pt, force)))"
  by (auto simp: watcher_cancel_def CommandExecutor_cancel_def
      CommandExecutor_kill_process_def Let_def split: option.splits prod.splits if_splits)

lemma watcher_cancel_handle:
  "(process (snd (watcher_cancel pt env s)) = None) = (process s = None)"
  by (auto simp: watcher_cancel_def CommandExecutor_cancel_def
      CommandExecutor_kill_process_def Let_def split: option.splits prod.splits if_splits)

lemma timeout_path_result:
  "process s \<noteq> None \<Longrightarrow>
   fst (timeout_path env m s) =
     \<lparr>exit_code = - 1,
      status = (if escalation_stalls (killer env) then ''failed'' else ''timed_out'')\<rparr>"
  by (auto simp: timeout_path_def CommandExecutor_kill_process_def escalation_stalls_def
      Let_def split: prod.splits option.splits)

lemma exit_path_result:
  "fst (exit_path env rc m s) =
     (if cancelled s then \<lparr>exit_code = rc, status = ''cancelled''\<rparr>
      else \<lparr>exit_code = rc, status = (if rc = 0 then ''success'' else ''failed'')\<rparr>)"
  by (simp add: exit_path_def Let_def split: prod.splits)

text \<open>The result of execute, path by path.\<close>

lemma execute_result:
  "result (CommandExecutor_execute pf env eid command a t s) =
     (case build_cmd pf (project_path s) command a of
        Inl e \<Rightarrow> Inl e
      | Inr cmd \<Rightarrow>
          if popen_fails env then Inr \<lparr>exit_code = - 1, status = ''failed''\<rparr>
          else (case wait_main env of
                  None \<Rightarrow>
                    Inr \<lparr>exit_code = - 1,
                         status = (if escalation_stalls (killer env) then ''failed''
                                   else ''timed_out'')\<rparr>
                | Some rc \<Rightarrow>
                    if (\<exists>force. watcher env = Some (Before_spawn, force)) \<or>
                       (\<exists>force. watcher env = Some (While_running, force))
                    then Inr \<lparr>exit_code = rc, status = ''cancelled''\<rparr>
                    else Inr \<lparr>exit_code = rc,
                              status = (if rc = 0 then ''success'' else ''failed'')\<rparr>))"
proof (cases "build_cmd pf (project_path s) command a")
  case (Inl e)
  then show ?thesis by (simp add: CommandExecutor_execute_def Let_def)
next
  case (Inr cmd)
  obtain ev0 s1 where w0: "watcher_cancel Before_spawn env (s\<lparr>cancelled := False\<rparr>) = (ev0, s1)"
    by (cases "watcher_cancel Before_spawn env (s\<lparr>cancelled := False\<rparr>)")
  define s2 where "s2 = s1\<lparr>process := Some \<lparr>args = cmd, returncode = None, alive = True\<rparr>\<rparr>"
  obtain evw s3 where w1: "watcher_cancel While_running env s2 = (evw, s3)"
    by (cases "watcher_cancel While_running env s2")
  from w0 have c1: "cancelled s1 = (\<exists>force. watcher env = Some (Before_spawn, force))"
    using watcher_cancel_flag [of Before_spawn env "s\<lparr>cancelled := False\<rparr>"] by simp
  from w1 have c3: "cancelled s3 = (cancelled s1 \<or> (\<exists>force. watcher env = Some (While_running, force)))"
    using watcher_cancel_flag [of While_running env s2] by (simp add: s2_def)
  from w1 have p3: "process s3 \<noteq> None"
    using watcher_cancel_handle [of While_running env s2] by (simp add: s2_def)
  show ?thesis
  proof (cases "popen_fails env")
    case True
    with Inr w0 show ?thesis
      by (simp add: CommandExecutor_execute_def Let_def case_prod_beta)
  next
    case False
    show ?thesis
    proof (cases "wait_main env")
      case None
      with Inr False w0 w1 p3 show ?thesis
        by (simp add: CommandExecutor_execute_def Let_def s2_def case_prod_beta
            timeout_path_result)
    next
      case (Some rc)
      with Inr False w0 w1 c1 c3 show ?thesis
        by (simp add: CommandExecutor_execute_def Let_def s2_def case_prod_beta
            exit_path_result)
    qed
  qed
qed

lemma timeout_path_child:
  "process s \<noteq> None \<Longrightarrow> \<not> escalation_stalls (killer env) \<Longrightarrow>
   map_option alive (process (snd (snd (timeout_path env m s)))) = Some False"
  by (auto simp: timeout_path_def CommandExecutor_kill_process_def escalation_stalls_def
      exited_def gone_def Let_def split: prod.splits option.splits)

text \<open>
  What the timeout path does whenever the escalation completes: the result is
  \<open>(-1, timed_out)\<close> and the child no longer runs when \<^verbatim>\<open>execute\<close> returns.
\<close>

lemma timeout_escalation_completes:
  assumes "build_cmd pf (project_path s) command a = Inr cmd"
    and "\<not> popen_fails env"
    and "wait_main env = None"
    and "\<not> escalation_stalls (killer env)"
  shows "result (CommandExecutor_execute pf env eid command a t s) =
      Inr \<lparr>exit_code = - 1, status = ''timed_out''\<rparr> \<and>
    map_option alive (child (CommandExecutor_execute pf env eid command a t s)) = Some False"
proof -
  obtain ev0 s1 where w0: "watcher_cancel Before_spawn env (s\<lparr>cancelled := False\<rparr>) = (ev0, s1)"
    by (cases "watcher_cancel Before_spawn env (s\<lparr>cancelled := False\<rparr>)")
  define s2 where "s2 = s1\<lparr>process := Some \<lparr>args = cmd, returncode = None, alive = True\<rparr>\<rparr>"
  obtain evw s3 where w1: "watcher_cancel While_running env s2 = (evw, s3)"
    by (cases "watcher_cancel While_running env s2")
  from w1 have p3: "process s3 \<noteq> None"
    using watcher_cancel_handle [of While_running env s2] by (simp add: s2_def)
  from assms have "result (CommandExecutor_execute pf env eid command a t s) =
      Inr \<lparr>exit_code = - 1, status = ''timed_out''\<rparr>"
    by (simp add: execute_result)
  moreover from assms w0 w1 p3
  have "map_option alive (child (CommandExecutor_execute pf env eid command a t s)) = Some False"
    by (simp add: CommandExecutor_execute_def Let_def s2_def case_prod_beta timeout_path_child)
  ultimately show ?thesis by simp
qed

text \<open>
  C4. The claim fails on the code when the child survives \<^verbatim>\<open>terminate()\<close> for the grace
  period and is not reaped within one second of \<^verbatim>\<open>kill()\<close>: the last wait of
  \<^verbatim>\<open>_kill_process\<close> raises \<^verbatim>\<open>TimeoutExpired\<close>, which only the \<^verbatim>\<open>except Exception\<close>
  of \<^verbatim>\<open>execute\<close> catches. The call returns status \<^verbatim>\<open>failed\<close>, not \<^verbatim>\<open>timed_out\<close>, and
  the child is still running.
\<close>

theorem timeout_with_stalled_kill_reports_failed:
  "result (CommandExecutor_execute unix_platform
             (quiet_env\<lparr>wait_main := None, killer := stalled_child\<rparr>)
             ''e1'' ''slow'' [] 10 (CommandExecutor_init ''/app'')) =
     Inr \<lparr>exit_code = - 1, status = ''failed''\<rparr> \<and>
   map_option alive (child (CommandExecutor_execute unix_platform
             (quiet_env\<lparr>wait_main := None, killer := stalled_child\<rparr>)
             ''e1'' ''slow'' [] 10 (CommandExecutor_init ''/app''))) = Some True \<and>
   calls (CommandExecutor_execute unix_platform
             (quiet_env\<lparr>wait_main := None, killer := stalled_child\<rparr>)
             ''e1'' ''slow'' [] 10 (CommandExecutor_init ''/app'')) =
     [Popen_call [''/usr/bin/python3'', ''-u'', ''/app/manage.py'', ''slow''],
      Wait_call 10, Terminate_call, Wait_call 5, Kill_call, Wait_call 1]"
  by (simp add: unix_platform_def quiet_env_def stalled_child_def prompt_child_def
      CommandExecutor_execute_def CommandExecutor_init_def build_cmd_def watcher_cancel_def
      CommandExecutor_kill_process_def timeout_path_def GRACE_PERIOD_def
      OutputStreamManager_init_def OutputStreamManager_flush_def
      OutputStreamManager_finalize_def flush_buffer_def LineBuffer_init_def
      LineBuffer_flush_def Let_def)




text \<open>
  C10. With no process handle, \<^verbatim>\<open>cancel(force)\<close> sets the flag, raises nothing and sends
  no signal. \<^verbatim>\<open>execute\<close> called afterwards behaves exactly as if \<^verbatim>\<open>cancel\<close> had not
  been called: same result, same calls.
\<close>

theorem cancel_before_execute_is_lost:
  assumes "process s = None"
  shows "CommandExecutor_cancel po force s = (None, ([] :: 't event list), s\<lparr>cancelled := True\<rparr>) \<and>
     CommandExecutor_execute pf env eid command a t (s\<lparr>cancelled := True\<rparr>) =
     CommandExecutor_execute pf env eid command a t s"
  using assms by (simp add: CommandExecutor_cancel_def CommandExecutor_execute_def)

theorem cancel_before_execute_is_lost_witness:
  "CommandExecutor_cancel prompt_child True (CommandExecutor_init ''/app'') =
     (None, ([] :: nat event list), \<lparr>project_path = ''/app'', process = None, cancelled = True\<rparr>) \<and>
   result (CommandExecutor_execute unix_platform quiet_env ''e1'' ''migrate'' [] 300
     \<lparr>project_path = ''/app'', process = None, cancelled = True\<rparr>) =
     Inr \<lparr>exit_code = 0, status = ''success''\<rparr>"
proof -
  have 1: "process (CommandExecutor_init ''/app'') = None"
    by (simp add: CommandExecutor_init_def)
  have 2: "result (CommandExecutor_execute unix_platform quiet_env ''e1'' ''migrate'' [] 300
      (CommandExecutor_init ''/app'')) = Inr \<lparr>exit_code = 0, status = ''success''\<rparr>"
    by (simp add: execute_result build_cmd_def unix_platform_def quiet_env_def
        CommandExecutor_init_def)
  from cancel_before_execute_is_lost [OF 1, of prompt_child True unix_platform quiet_env
      "''e1''" "''migrate''" "[]" 300, where 't = nat] 2
  show ?thesis by (simp add: CommandExecutor_init_def)
qed

section \<open>Agent: proofs\<close>

lemma silent_append: "silent (xs @ ys) = (silent xs \<and> silent ys)"
  by (simp add: silent_def)

lemma silent_Nil: "silent []"
  by (simp add: silent_def)

lemma silent_Cons: "silent (ev # evs) = (\<not> lifecycle ev \<and> silent evs)"
  by (simp add: silent_def)

lemma silent_completions: "silent evs \<Longrightarrow> completions evs = []"
  by (induction evs rule: completions.induct) (simp_all add: silent_def)

lemma completions_append: "completions (xs @ ys) = completions xs @ completions ys"
  by (induction xs rule: completions.induct) simp_all

lemma flush_buffer_silent: "silent (fst (flush_buffer err m))"
  by (simp add: flush_buffer_def silent_def Let_def split: prod.splits)

lemma flush_silent: "silent (fst (OutputStreamManager_flush m))"
  by (simp add: OutputStreamManager_flush_def silent_append case_prod_beta flush_buffer_silent)

lemma finalize_silent: "silent (fst (OutputStreamManager_finalize m))"
  by (simp add: OutputStreamManager_finalize_def flush_silent)

lemma osm_run_silent: "silent (fst (osm_run ops m))"
proof (induction ops arbitrary: m)
  case Nil
  show ?case by (simp add: silent_Nil)
next
  case (Cons x ops)
  show ?case
  proof (cases x)
    case (Feed tc err)
    with Cons show ?thesis by simp
  next
    case Tick
    with Cons show ?thesis
      by (simp add: silent_append case_prod_beta flush_silent)
  qed
qed

lemma kill_process_silent:
  "silent (fst (snd (CommandExecutor_kill_process po k s)))"
  by (simp add: CommandExecutor_kill_process_def silent_def split: option.splits)

lemma watcher_cancel_silent: "silent (fst (watcher_cancel pt env s))"
  by (simp add: watcher_cancel_def CommandExecutor_cancel_def Let_def case_prod_beta
      kill_process_silent silent_Nil split: option.splits)

lemma timeout_path_silent: "silent (fst (snd (timeout_path env m s)))"
  by (simp add: timeout_path_def Let_def case_prod_beta silent_append kill_process_silent
      finalize_silent split: option.splits)

lemma exit_path_silent: "silent (fst (snd (exit_path env rc m s)))"
  by (simp add: exit_path_def silent_append Let_def case_prod_beta finalize_silent
      watcher_cancel_silent)

lemma execute_silent: "silent (calls (CommandExecutor_execute pf env eid command a t s))"
  by (simp add: CommandExecutor_execute_def Let_def case_prod_beta silent_append
      silent_Cons silent_Nil watcher_cancel_silent finalize_silent osm_run_silent
      timeout_path_silent exit_path_silent split: option.splits sum.splits)

lemma execute_status:
  "result (CommandExecutor_execute pf env eid command a t s) = Inr r \<Longrightarrow>
   status r \<in> set terminal_statuses"
  by (auto simp: execute_result terminal_statuses_def split: sum.splits if_splits option.splits)

lemma execute_raises:
  "(result (CommandExecutor_execute pf env eid command a t s) = Inl e) =
   (e = ValueError \<and> a \<noteq> [] \<and> shlex_split pf a = None)"
  by (auto simp: execute_result build_cmd_def Let_def split: sum.splits if_splits option.splits)

lemma worker_completions:
  "completions (wcalls (Agent_run_execution pf st env eid command a t ag)) =
     (if \<not> start_ok (client env) then []
      else if \<not> fst (is_command_allowed st command) then [(eid, - 1, ''failed'')]
      else (case result (CommandExecutor_execute pf (exec env) eid command a t
                  (CommandExecutor_init (agent_project_path ag))) of
              Inl e \<Rightarrow> []
            | Inr r \<Rightarrow> [(eid, exit_code r, status r)]))"
  by (simp add: Agent_run_execution_def Agent_reject_execution_def Let_def case_prod_beta
      completions_append silent_completions execute_silent split: sum.splits)

text \<open>
  C3, as the code has it. The worker calls \<^verbatim>\<open>complete_execution\<close> at most once, for its own
  execution id and with one of the four terminal statuses. It calls it exactly once when
  \<^verbatim>\<open>start_execution\<close> succeeded and \<^verbatim>\<open>execute\<close> returned a result, which it does
  whenever the argument string is empty or \<^verbatim>\<open>shlex.split\<close> accepts it.
\<close>

theorem completion_reported_at_most_once:
  "length (completions (wcalls (Agent_run_execution pf st env eid command a t ag))) \<le> 1 \<and>
   list_all (\<lambda>(i, rc, s). i = eid \<and> s \<in> set terminal_statuses)
     (completions (wcalls (Agent_run_execution pf st env eid command a t ag))) \<and>
   (start_ok (client env) \<and> (a = [] \<or> shlex_split pf a \<noteq> None) \<longrightarrow>
    length (completions (wcalls (Agent_run_execution pf st env eid command a t ag))) = 1)"
proof -
  let ?x = "CommandExecutor_execute pf (exec env) eid command a t
              (CommandExecutor_init (agent_project_path ag))"
  show ?thesis
  proof (cases "result ?x")
    case (Inl e)
    then have bad: "a \<noteq> [] \<and> shlex_split pf a = None"
      using execute_raises [of pf "exec env" eid command a t _ e] by simp
    from Inl have c: "completions (wcalls (Agent_run_execution pf st env eid command a t ag)) =
        (if \<not> start_ok (client env) then []
         else if \<not> fst (is_command_allowed st command) then [(eid, - 1, ''failed'')]
         else [])"
      by (simp add: worker_completions)
    from bad show ?thesis unfolding c by (simp add: terminal_statuses_def)
  next
    case (Inr r)
    then have ok: "status r \<in> set terminal_statuses" by (rule execute_status)
    from Inr have c: "completions (wcalls (Agent_run_execution pf st env eid command a t ag)) =
        (if \<not> start_ok (client env) then []
         else if \<not> fst (is_command_allowed st command) then [(eid, - 1, ''failed'')]
         else [(eid, exit_code r, status r)])"
      by (simp add: worker_completions)
    from ok show ?thesis unfolding c by (simp add: terminal_statuses_def)
  qed
qed

theorem completion_reported_at_most_once_witness:
  "completions (wcalls (Agent_run_execution unix_platform default_settings quiet_worker
     ''e1'' ''migrate'' [] 300 idle_agent)) = [(''e1'', 0, ''success'')]"
  using completion_reported_at_most_once [of unix_platform default_settings quiet_worker
     "''e1''" "''migrate''" "[]" 300 idle_agent]
  by (simp add: worker_completions execute_result build_cmd_def is_command_allowed_def
      DEFAULT_DISALLOWED_COMMANDS_def default_settings_def quiet_worker_def
      reachable_client_def quiet_env_def unix_platform_def)

text \<open>
  C3 as stated fails: when \<^verbatim>\<open>start_execution\<close> raises, the worker returns at once and
  \<^verbatim>\<open>complete_execution\<close> is never called for the execution.
\<close>

theorem completion_missing_when_start_fails:
  "starts (wcalls (Agent_run_execution unix_platform default_settings
     (quiet_worker\<lparr>client := unreachable_client\<rparr>) ''e1'' ''migrate'' [] 300 idle_agent)) =
     [''e1''] \<and>
   completions (wcalls (Agent_run_execution unix_platform default_settings
     (quiet_worker\<lparr>client := unreachable_client\<rparr>) ''e1'' ''migrate'' [] 300 idle_agent)) = []"
  by (simp add: Agent_run_execution_def is_command_allowed_def
      DEFAULT_DISALLOWED_COMMANDS_def default_settings_def quiet_worker_def
      unreachable_client_def Let_def)

lemma error_message_reason: "\<exists>pre post. error_message command reason = pre @ reason @ post"
proof -
  have "error_message command reason =
      (''Command '' @ [CHR 0x27] @ command @ [CHR 0x27] @
        '' rejected by agent security policy.'' @ [CHR 0x0A] @ ''Reason: '') @ reason @
      ([CHR 0x0A] @ [CHR 0x0A] @
       ''To allow this command, update your Django settings:'' @ [CHR 0x0A] @
       ''  DJANGOCOMMAND_ALLOWED_COMMANDS = ('' @ [CHR 0x27] @ command @ [CHR 0x27] @
         '', ...)'' @ [CHR 0x0A] @
       ''or remove it from DJANGOCOMMAND_DISALLOWED_COMMANDS.'' @ [CHR 0x0A])"
    by (simp add: error_message_def)
  then show ?thesis by blast
qed

text \<open>
  C6, as the code has it. For a disallowed command the worker calls \<^verbatim>\<open>start_execution\<close>
  once, spawns nothing and never writes the active set. If \<^verbatim>\<open>start_execution\<close> returned,
  it sends one stderr chunk (number 1) of one segment whose text contains the reason, and
  calls \<^verbatim>\<open>complete_execution\<close> once with exit code -1 and status \<^verbatim>\<open>failed\<close>; if it
  raised, the worker sends and reports nothing more.
\<close>

theorem rejected_execution_is_reported:
  assumes "\<not> fst (is_command_allowed st command)"
  shows "starts (wcalls (Agent_run_execution pf st env eid command a t ag)) = [eid] \<and>
    spawns (wcalls (Agent_run_execution pf st env eid command a t ag)) = [] \<and>
    writes (Agent_run_execution pf st env eid command a t ag) = [] \<and>
    agent (Agent_run_execution pf st env eid command a t ag) = ag \<and>
    raised (Agent_run_execution pf st env eid command a t ag) = None \<and>
    outputs (wcalls (Agent_run_execution pf st env eid command a t ag)) =
      (if start_ok (client env)
       then [(eid, [\<lparr>timestamp = Some (clock env),
                     content = error_message command (snd (is_command_allowed st command))\<rparr>],
              True, 1)]
       else []) \<and>
    completions (wcalls (Agent_run_execution pf st env eid command a t ag)) =
      (if start_ok (client env) then [(eid, - 1, ''failed'')] else []) \<and>
    (\<exists>pre post. error_message command (snd (is_command_allowed st command)) =
       pre @ snd (is_command_allowed st command) @ post)"
  using assms error_message_reason [of command "snd (is_command_allowed st command)"]
  by (simp add: Agent_run_execution_def Agent_reject_execution_def case_prod_beta)

theorem rejected_execution_is_reported_witness:
  "wcalls (Agent_run_execution unix_platform default_settings quiet_worker
     ''e1'' ''flush'' [] 300 idle_agent) =
     [StartExecution ''e1'',
      SendOutput ''e1''
        [\<lparr>timestamp = Some 7,
          content = error_message ''flush'' ''in DJANGOCOMMAND_DISALLOWED_COMMANDS blocklist''\<rparr>]
        True 1,
      CompleteExecution ''e1'' (- 1) ''failed''] \<and>
   completions (wcalls (Agent_run_execution unix_platform default_settings quiet_worker
     ''e1'' ''flush'' [] 300 idle_agent)) = [(''e1'', - 1, ''failed'')]"
proof -
  have 1: "\<not> fst (is_command_allowed default_settings ''flush'')"
    by (simp add: is_command_allowed_def default_settings_def DEFAULT_DISALLOWED_COMMANDS_def)
  from rejected_execution_is_reported [OF 1, of unix_platform quiet_worker "''e1''" "[]" 300
      idle_agent]
  show ?thesis
    by (simp add: Agent_run_execution_def Agent_reject_execution_def is_command_allowed_def
        default_settings_def DEFAULT_DISALLOWED_COMMANDS_def quiet_worker_def
        reachable_client_def)
qed

text \<open>
  C6 as stated fails: when \<^verbatim>\<open>start_execution\<close> raises for a disallowed command, no output
  segment is sent and \<^verbatim>\<open>complete_execution\<close> is not called.
\<close>

theorem rejection_unreported_when_start_fails:
  "wcalls (Agent_run_execution unix_platform default_settings
     (quiet_worker\<lparr>client := unreachable_client\<rparr>) ''e1'' ''flush'' [] 300 idle_agent) =
     [StartExecution ''e1'']"
  by (simp add: Agent_run_execution_def Agent_reject_execution_def is_command_allowed_def
      default_settings_def DEFAULT_DISALLOWED_COMMANDS_def quiet_worker_def
      unreachable_client_def)

lemma dict_set_keys: "set (dict_keys (dict_set d k v)) = insert k (set (dict_keys d))"
  by (induction d k v rule: dict_set.induct) (auto simp: dict_keys_def)

lemma dict_pop_keys: "set (dict_keys (dict_pop k d)) = set (dict_keys d) - {k}"
  by (auto simp: dict_keys_def dict_pop_def)

lemma dict_pop_set: "dict_pop k (dict_set d k v) = dict_pop k d"
  by (induction d k v rule: dict_set.induct) (auto simp: dict_pop_def)

lemma worker_raised:
  "raised (Agent_run_execution pf st env eid command a t ag) =
     (if fst (is_command_allowed st command) \<and> start_ok (client env) \<and> a \<noteq> [] \<and>
         shlex_split pf a = None
      then Some ValueError else None)"
proof (cases "result (CommandExecutor_execute pf (exec env) eid command a t
                (CommandExecutor_init (agent_project_path ag)))")
  case (Inl e)
  with execute_raises [of pf "exec env" eid command a t _ e] show ?thesis
    by (simp add: Agent_run_execution_def Let_def case_prod_beta)
next
  case (Inr r)
  with execute_raises [of pf "exec env" eid command a t "CommandExecutor_init (agent_project_path ag)" ValueError]
  show ?thesis
    by (auto simp: Agent_run_execution_def Let_def case_prod_beta)
qed

text \<open>
  C9. Whatever the client, the child process and the watcher do, nothing the worker raises
  reaches the caller of \<^verbatim>\<open>submit\<close>; the only exception that leaves the worker at all is the
  \<^verbatim>\<open>ValueError\<close> of \<^verbatim>\<open>shlex.split\<close>, raised by \<^verbatim>\<open>execute\<close> before its \<^verbatim>\<open>try\<close>. In every
  case, that one included, an id the worker inserted into the active set is removed again
  by the \<^verbatim>\<open>finally\<close> block, and the other entries are left as they were.
\<close>

theorem worker_failures_are_contained:
  "propagated (pool_submit (Agent_run_execution pf st env eid command a t ag)) = None \<and>
   (raised (Agent_run_execution pf st env eid command a t ag) = None \<or>
    raised (Agent_run_execution pf st env eid command a t ag) = Some ValueError \<and>
      a \<noteq> [] \<and> shlex_split pf a = None) \<and>
   (if fst (is_command_allowed st command)
    then writes (Agent_run_execution pf st env eid command a t ag) =
           [dict_set (active_executions ag) eid (CommandExecutor_init (agent_project_path ag)),
            dict_pop eid (active_executions ag)]
    else writes (Agent_run_execution pf st env eid command a t ag) = []) \<and>
   active_executions (agent (Agent_run_execution pf st env eid command a t ag)) =
     (if fst (is_command_allowed st command) then dict_pop eid (active_executions ag)
      else active_executions ag) \<and>
   (fst (is_command_allowed st command) \<longrightarrow>
    eid \<notin> set (dict_keys
      (active_executions (agent (Agent_run_execution pf st env eid command a t ag)))))"
proof -
  have "active_executions (agent (Agent_run_execution pf st env eid command a t ag)) =
     (if fst (is_command_allowed st command) then dict_pop eid (active_executions ag)
      else active_executions ag)"
    by (simp add: Agent_run_execution_def Let_def case_prod_beta dict_pop_set
        split: sum.splits)
  moreover have "if fst (is_command_allowed st command)
    then writes (Agent_run_execution pf st env eid command a t ag) =
           [dict_set (active_executions ag) eid (CommandExecutor_init (agent_project_path ag)),
            dict_pop eid (active_executions ag)]
    else writes (Agent_run_execution pf st env eid command a t ag) = []"
    by (simp add: Agent_run_execution_def Let_def case_prod_beta dict_pop_set
        split: sum.splits)
  ultimately show ?thesis
    by (simp add: worker_raised pool_submit_def dict_pop_keys)
qed

theorem worker_failures_are_contained_witness:
  "raised (Agent_run_execution unix_platform default_settings quiet_worker
     ''e1'' ''migrate'' [CHR 0x22] 300 (idle_agent\<lparr>active_executions :=
        [(''e0'', CommandExecutor_init ''/app'')]\<rparr>)) = Some ValueError \<and>
   active_executions (agent (Agent_run_execution unix_platform default_settings quiet_worker
     ''e1'' ''migrate'' [CHR 0x22] 300 (idle_agent\<lparr>active_executions :=
        [(''e0'', CommandExecutor_init ''/app'')]\<rparr>))) = [(''e0'', CommandExecutor_init ''/app'')]"
  using worker_failures_are_contained [of unix_platform default_settings quiet_worker
     "''e1''" "''migrate''" "[CHR 0x22]" 300
     "idle_agent\<lparr>active_executions := [(''e0'', CommandExecutor_init ''/app'')]\<rparr>"]
  by (simp add: worker_raised is_command_allowed_def default_settings_def
      DEFAULT_DISALLOWED_COMMANDS_def quiet_worker_def reachable_client_def
      unix_platform_def sample_split_def idle_agent_def dict_pop_def)

section \<open>Polling and the worker pool: proofs\<close>

lemma dict_set_distinct: "distinct (dict_keys d) \<Longrightarrow> distinct (dict_keys (dict_set d k v))"
proof (induction d k v rule: dict_set.induct)
  case (1 k v)
  show ?case by (simp add: dict_keys_def)
next
  case (2 k' v' d k v)
  from 2 have d: "distinct (dict_keys d)" "k' \<notin> set (dict_keys d)"
    by (simp_all add: dict_keys_def)
  show ?case
  proof (cases "k' = k")
    case True
    with d show ?thesis by (simp add: dict_keys_def)
  next
    case False
    from False d 2 have "distinct (dict_keys (dict_set d k v))" by simp
    moreover from False d have "k' \<notin> set (dict_keys (dict_set d k v))"
      by (simp add: dict_set_keys)
    ultimately show ?thesis using False by (simp add: dict_keys_def)
  qed
qed

lemma dict_pop_distinct: "distinct (dict_keys d) \<Longrightarrow> distinct (dict_keys (dict_pop k d))"
  by (simp add: dict_keys_def dict_pop_def distinct_map_filter)

lemma tracked_ids_append: "tracked_ids (ws @ ws') = tracked_ids ws @ tracked_ids ws'"
  by (simp add: tracked_ids_def)

lemma tracked_ids_length: "length (tracked_ids ws) \<le> length ws"
  by (simp add: tracked_ids_def)

lemma pool_invariant_idle: "pool_invariant idle_runtime"
  by (simp add: pool_invariant_def idle_runtime_def dict_keys_def tracked_ids_def)

lemma pool_invariant_step:
  assumes "step st r act r'" and "pool_invariant r"
  shows "pool_invariant r'"
  using assms
proof (induction rule: step.induct)
  case (dispatch r e)
  then show ?case by (simp add: pool_invariant_def)
next
  case (pickup r e q)
  then show ?case
    by (auto simp: pool_invariant_def tracked_ids_append tracked_ids_def)
next
  case (reject r ws e ws')
  then show ?case
    by (auto simp: pool_invariant_def tracked_ids_append tracked_ids_def)
next
  case (track r ws e ws' x)
  then show ?case
    by (auto simp: pool_invariant_def tracked_ids_append tracked_ids_def dict_set_distinct
        dict_set_keys)
next
  case (finish r ws e ws')
  then show ?case
    by (auto simp: pool_invariant_def tracked_ids_append tracked_ids_def dict_pop_distinct
        dict_pop_keys)
qed

lemma reachable_invariant: "reachable st r \<Longrightarrow> pool_invariant r"
  by (induction rule: reachable.induct) (auto intro: pool_invariant_idle pool_invariant_step)

lemma pool_invariant_bound:
  assumes "pool_invariant r"
  shows "length (active_set r) \<le> MAX_CONCURRENT_EXECUTIONS"
proof -
  from assms have d: "distinct (dict_keys (active_set r))"
    and s: "set (dict_keys (active_set r)) \<subseteq> set (tracked_ids (running_workers r))"
    and w: "length (running_workers r) \<le> MAX_CONCURRENT_EXECUTIONS"
    by (simp_all add: pool_invariant_def)
  have "length (active_set r) = length (dict_keys (active_set r))"
    by (simp add: dict_keys_def)
  also from d have "\<dots> = card (set (dict_keys (active_set r)))"
    by (simp add: distinct_card)
  also from s have "\<dots> \<le> card (set (tracked_ids (running_workers r)))"
    by (simp add: card_mono)
  also have "\<dots> \<le> length (tracked_ids (running_workers r))"
    by (rule card_length)
  also have "\<dots> \<le> length (running_workers r)"
    by (rule tracked_ids_length)
  finally show ?thesis using w by simp
qed

lemma poll_loop_admits:
  "e \<in> set (poll_loop act es) \<Longrightarrow> admit act (ex_id e) = Submit"
  by (induction es) (auto split: decision.splits)

lemma poll_loop_subset: "set (poll_loop act es) \<subseteq> set es"
  by (induction es) (auto split: decision.splits)

text \<open>
  The test of the poll loop sees an id only once a worker has inserted it. Until then a
  second poll that returns the same execution submits it again.
\<close>

lemma resubmission_before_tracking:
  "reachable default_settings
     \<lparr>active_set = [], work_queue = [first_execution, first_execution],
      running_workers = []\<rparr>"
proof -
  let ?r1 = "idle_runtime\<lparr>work_queue := work_queue idle_runtime @ [first_execution]\<rparr>"
  let ?r2 = "?r1\<lparr>work_queue := work_queue ?r1 @ [first_execution]\<rparr>"
  have "step default_settings idle_runtime (Dispatch first_execution) ?r1"
    by (rule step.dispatch)
       (simp add: admit_def idle_runtime_def dict_keys_def MAX_CONCURRENT_EXECUTIONS_def)
  with reachable.start have 1: "reachable default_settings ?r1"
    by (rule reachable.next_step)
  have "step default_settings ?r1 (Dispatch first_execution) ?r2"
    by (rule step.dispatch)
       (simp add: admit_def idle_runtime_def dict_keys_def MAX_CONCURRENT_EXECUTIONS_def)
  with 1 have "reachable default_settings ?r2"
    by (rule reachable.next_step)
  then show ?thesis by (simp add: idle_runtime_def)
qed

text \<open>
  C7. In every state the agent loop and the pool threads can reach, the active set holds
  at most \<open>MAX_CONCURRENT_EXECUTIONS = 4\<close> entries and no id twice; and an execution
  whose id is in the active set when the poll loop tests it is skipped: the test answers
  \<^verbatim>\<open>continue\<close>, and \<^verbatim>\<open>poll_and_execute\<close> does not submit it.
\<close>

theorem active_set_within_ceiling:
  assumes "reachable st r"
  shows "length (active_set r) \<le> MAX_CONCURRENT_EXECUTIONS \<and>
    MAX_CONCURRENT_EXECUTIONS = 4 \<and>
    distinct (dict_keys (active_set r)) \<and>
    (ex_id e \<in> set (dict_keys (active_set r)) \<longrightarrow>
       admit (active_set r) (ex_id e) = Skip \<and>
       e \<notin> set (Agent_poll_and_execute polled (a\<lparr>active_executions := active_set r\<rparr>)) \<and>
       \<not> step st r (Dispatch e) r')"
proof -
  from assms have inv: "pool_invariant r" by (rule reachable_invariant)
  have skip: "admit (active_set r) (ex_id e) = Skip"
    if "ex_id e \<in> set (dict_keys (active_set r))"
    using that by (simp add: admit_def)
  have "e \<notin> set (Agent_poll_and_execute polled (a\<lparr>active_executions := active_set r\<rparr>))"
    if "ex_id e \<in> set (dict_keys (active_set r))"
  proof (cases polled)
    case None
    then show ?thesis by (simp add: Agent_poll_and_execute_def)
  next
    case (Some es)
    with skip [OF that] poll_loop_admits [of e "active_set r" es] show ?thesis
      by (auto simp: Agent_poll_and_execute_def)
  qed
  moreover have "\<not> step st r (Dispatch e) r'"
    if "ex_id e \<in> set (dict_keys (active_set r))"
  proof
    assume "step st r (Dispatch e) r'"
    then have "admit (active_set r) (ex_id e) = Submit" by (rule dispatch_cases)
    with skip [OF that] show False by simp
  qed
  ultimately show ?thesis
    using inv pool_invariant_bound [OF inv] skip
    by (simp add: pool_invariant_def MAX_CONCURRENT_EXECUTIONS_def)
qed

lemma busy_runtime_reachable: "reachable default_settings busy_runtime"
proof -
  let ?r1 = "idle_runtime\<lparr>work_queue := work_queue idle_runtime @ [first_execution]\<rparr>"
  let ?r2 = "?r1\<lparr>work_queue := [],
                   running_workers := running_workers ?r1 @ [(Checking, first_execution)]\<rparr>"
  let ?r3 = "?r2\<lparr>active_set := dict_set (active_set ?r2) (ex_id first_execution)
                                 (CommandExecutor_init ''/app''),
                   running_workers := [] @ (Tracked, first_execution) # []\<rparr>"
  have "step default_settings idle_runtime (Dispatch first_execution) ?r1"
    by (rule step.dispatch)
       (simp add: admit_def idle_runtime_def dict_keys_def MAX_CONCURRENT_EXECUTIONS_def)
  with reachable.start have 1: "reachable default_settings ?r1"
    by (rule reachable.next_step)
  have "step default_settings ?r1 Pickup ?r2"
    by (rule step.pickup) (simp_all add: idle_runtime_def MAX_CONCURRENT_EXECUTIONS_def)
  with 1 have 2: "reachable default_settings ?r2"
    by (rule reachable.next_step)
  have "step default_settings ?r2 Track ?r3"
    by (rule step.track)
       (simp_all add: idle_runtime_def first_execution_def is_command_allowed_def
          default_settings_def DEFAULT_DISALLOWED_COMMANDS_def)
  with 2 have "reachable default_settings ?r3"
    by (rule reachable.next_step)
  moreover have "?r3 = busy_runtime"
    by (simp add: busy_runtime_def idle_runtime_def first_execution_def)
  ultimately show ?thesis by simp
qed

theorem active_set_within_ceiling_witness:
  "reachable default_settings busy_runtime \<and>
   length (active_set busy_runtime) = 1 \<and>
   admit (active_set busy_runtime) (ex_id first_execution) = Skip \<and>
   Agent_poll_and_execute (Some [first_execution, second_execution])
     (idle_agent\<lparr>active_executions := active_set busy_runtime\<rparr>) = [second_execution]"
  using busy_runtime_reachable
    active_set_within_ceiling [OF busy_runtime_reachable, of first_execution
      "Some [first_execution, second_execution]" idle_agent]
  by (simp add: Agent_poll_and_execute_def busy_runtime_def first_execution_def
      second_execution_def admit_def dict_keys_def MAX_CONCURRENT_EXECUTIONS_def)

end
